theory Spec2Isabelle
  imports Main
begin

section \<open>Errors\<close>

text \<open>
  Every exception the modelled code can raise is a value. An operation that mutates the
  Campaign returns the state reached together with the error raised, if any, so that what
  was already mutated when an exception escapes stays visible.
\<close>

datatype py_error =
    AssertionError string
  | TypeError
  | IndexError
  | KeyError
  | ValueError

definition bindE :: "py_error + 'a \<Rightarrow> ('a \<Rightarrow> py_error + 'b) \<Rightarrow> py_error + 'b" where
  "bindE m k = (case m of Inl e \<Rightarrow> Inl e | Inr v \<Rightarrow> k v)"

text \<open>Python list indexing \<open>xs[i]\<close>: negative indices count from the end, out of range raises.\<close>

definition py_index_ok :: "'a list \<Rightarrow> int \<Rightarrow> bool" where
  "py_index_ok xs i = (- int (length xs) \<le> i \<and> i < int (length xs))"

definition py_pos :: "'a list \<Rightarrow> int \<Rightarrow> nat" where
  "py_pos xs i = nat (if i < 0 then int (length xs) + i else i)"

definition py_get :: "'a list \<Rightarrow> int \<Rightarrow> py_error + 'a" where
  "py_get xs i = (if py_index_ok xs i then Inr (xs ! py_pos xs i) else Inl IndexError)"

section \<open>Layer topology registry\<close>

text \<open>
  Modelled from the spec: \<open>LayersInfo\<close> (spikefi/utils/layer.py) is not among the sources.
  The registry is the ordered sequence of the layers, each with its name, its synaptic
  weight shape, its neuronal output shape, its injectability flag and its type (only
  whether it is a dropout layer matters to the campaign). The output stage is the last
  layer of the order, the following layer the next one in the order. A lookup by a name
  that is not registered fails.
\<close>

record layer_entry =
  lay_name :: string
  shape_syn :: "int \<times> int \<times> int \<times> int"
  shape_neu :: "int \<times> int \<times> int"
  injectable :: bool
  is_dropout :: bool

type_synonym layers_info = "layer_entry list"

definition order :: "layers_info \<Rightarrow> string list" where
  "order li = map lay_name li"

definition lookup :: "layers_info \<Rightarrow> string \<Rightarrow> layer_entry option" where
  "lookup li l = find (\<lambda>e. lay_name e = l) li"

definition get_injectables :: "layers_info \<Rightarrow> string list" where
  "get_injectables li = map lay_name (filter injectable li)"

definition is_injectable :: "layers_info \<Rightarrow> string option \<Rightarrow> bool" where
  "is_injectable li n =
     (case n of
        None \<Rightarrow> False
      | Some l \<Rightarrow> (case lookup li l of None \<Rightarrow> False | Some e \<Rightarrow> injectable e))"

fun tuple4 :: "int \<times> int \<times> int \<times> int \<Rightarrow> int list" where
  "tuple4 (a, b, c, d) = [a, b, c, d]"

fun tuple3 :: "int \<times> int \<times> int \<Rightarrow> int list" where
  "tuple3 (a, b, c) = [a, b, c]"

definition get_shapes :: "layers_info \<Rightarrow> bool \<Rightarrow> string \<Rightarrow> int list option" where
  "get_shapes li is_syn l =
     map_option (\<lambda>e. if is_syn then tuple4 (shape_syn e) else tuple3 (shape_neu e)) (lookup li l)"

definition is_output :: "layers_info \<Rightarrow> string \<Rightarrow> bool" where
  "is_output li l = (li \<noteq> [] \<and> l = last (order li))"

fun index_of :: "string list \<Rightarrow> string \<Rightarrow> nat option" where
  "index_of [] l = None"
| "index_of (x # xs) l = (if x = l then Some 0 else map_option Suc (index_of xs l))"

definition get_following :: "layers_info \<Rightarrow> string \<Rightarrow> string option" where
  "get_following li l =
     (case index_of (order li) l of
        None \<Rightarrow> None
      | Some i \<Rightarrow> if Suc i < length li then Some (order li ! Suc i) else None)"

definition layer_is_dropout :: "layers_info \<Rightarrow> string \<Rightarrow> bool" where
  "layer_is_dropout li l = (case lookup li l of None \<Rightarrow> False | Some e \<Rightarrow> is_dropout e)"

section \<open>Fault entities\<close>

text \<open>
  Modelled from the spec: the classes of spikefi/fault.py are not among the sources.
  A coordinate is \<open>None\<close> (still to be drawn at random), the wildcard \<open>slice(None)\<close> or a
  concrete integer; a position is a 4-tuple of coordinates; a site is a layer name, which
  may be missing, and a position. A fault model is told apart by its target (the comments
  of \<open>_perturb_net\<close> give the indices: Z is 0, W is 1, P is 2); parametric faults are a
  subset of the neuronal ones. A fault pairs a model with its defined sites and keeps the
  sites that are not fully defined yet apart; with no defined site it is void (falsy).
\<close>

datatype coord = Unset | Wild | Idx int

datatype position = Pos coord coord coord coord

fun pget :: "position \<Rightarrow> nat \<Rightarrow> coord" where
  "pget (Pos a b c d) i = (if i = 0 then a else if i = 1 then b else if i = 2 then c else d)"

record fault_site =
  layer :: "string option"
  position :: position

datatype fault_target = Z | W | P

fun get_index :: "fault_target \<Rightarrow> nat" where
  "get_index Z = 0"
| "get_index W = 1"
| "get_index P = 2"

record fault_model =
  fm_name :: string
  target :: fault_target
  param_name :: string

definition is_synaptic :: "fault_model \<Rightarrow> bool" where
  "is_synaptic m = (target m = W)"

definition is_parametric :: "fault_model \<Rightarrow> bool" where
  "is_parametric m = (target m = P)"

definition is_neuronal :: "fault_model \<Rightarrow> bool" where
  "is_neuronal m = (target m = Z \<or> target m = P)"

record fault =
  model :: fault_model
  sites :: "fault_site list"
  sites_pending :: "fault_site list"

definition fault_truthy :: "fault \<Rightarrow> bool" where
  "fault_truthy f = (sites f \<noteq> [])"

definition layer_falsy :: "fault_site \<Rightarrow> bool" where
  "layer_falsy s = (layer s = None \<or> layer s = Some [])"

definition is_defined :: "fault_site \<Rightarrow> bool" where
  "is_defined s = (\<not> layer_falsy s \<and> list_all (\<lambda>i. pget (position s) i \<noteq> Unset) [0, 1, 2, 3])"

text \<open>\<open>Fault(model, site)\<close>: a defined site goes to the site set, any other is pending.\<close>

definition Fault :: "fault_model \<Rightarrow> fault_site \<Rightarrow> fault" where
  "Fault m s = (if is_defined s then \<lparr>model = m, sites = [s], sites_pending = []\<rparr>
                else \<lparr>model = m, sites = [], sites_pending = [s]\<rparr>)"

definition FaultSite :: "string \<Rightarrow> position \<Rightarrow> fault_site" where
  "FaultSite l p = \<lparr>layer = Some l, position = p\<rparr>"

text \<open>
  Modelled from the spec: a Fault Round is effectively a set of Faults, kept here in
  insertion order; an empty Round is falsy. \<open>insert_many\<close> adds the Faults that are not
  members yet, \<open>extract_many\<close> removes the given Faults.
\<close>

type_synonym fault_round = "fault list"

definition FaultRound :: fault_round where
  "FaultRound = []"

definition insert_many :: "fault_round \<Rightarrow> fault list \<Rightarrow> fault_round" where
  "insert_many r fs = fold (\<lambda>f acc. if f \<in> set acc then acc else acc @ [f]) fs r"

definition extract_many :: "fault_round \<Rightarrow> fault list \<Rightarrow> fault_round" where
  "extract_many r fs = filter (\<lambda>f. f \<notin> set fs) r"

text \<open>
  Modelled from the spec: the Optimized Fault Round derived from a Round and the registry:
  index and name of the earliest layer touched by any site, index of the latest one, and
  whether the output stage is targeted. An empty Round has no early or late layer. A site
  whose layer the registry does not know fails loudly.
\<close>

record oround =
  oround_faults :: fault_round
  early_name :: "string option"
  early_idx :: "int option"
  late_idx :: "int option"
  is_out_faulty :: bool

definition site_layers :: "fault_round \<Rightarrow> string list" where
  "site_layers r = concat (map (\<lambda>f. List.map_filter layer (sites f)) r)"

definition optimized :: "layers_info \<Rightarrow> fault_round \<Rightarrow> py_error + oround" where
  "optimized li r =
     (let names = site_layers r; idxs = map (index_of (order li)) names in
      if None \<in> set idxs then Inl ValueError
      else if idxs = [] then
        Inr \<lparr>oround_faults = r, early_name = None, early_idx = None, late_idx = None,
             is_out_faulty = False\<rparr>
      else
        (let ks = map the idxs; e = fold min ks (hd ks); l = fold max ks (hd ks) in
         Inr \<lparr>oround_faults = r, early_name = Some (order li ! e), early_idx = Some (int e),
              late_idx = Some (int l), is_out_faulty = list_ex (is_output li) names\<rparr>))"

definition oround_truthy :: "oround \<Rightarrow> bool" where
  "oround_truthy orr = (oround_faults orr \<noteq> [])"

definition in_layer :: "string \<Rightarrow> fault \<Rightarrow> bool" where
  "in_layer l f = list_ex (\<lambda>s. layer s = Some l) (sites f)"

definition search_neuronal :: "fault_round \<Rightarrow> string \<Rightarrow> fault list" where
  "search_neuronal r l = filter (\<lambda>f. is_neuronal (model f) \<and> in_layer l f) r"

definition search_parametric :: "fault_round \<Rightarrow> string \<Rightarrow> fault list" where
  "search_parametric r l = filter (\<lambda>f. is_parametric (model f) \<and> in_layer l f) r"

definition search_synaptic :: "fault_round \<Rightarrow> string \<Rightarrow> fault list" where
  "search_synaptic r l = filter (\<lambda>f. is_synaptic (model f) \<and> in_layer l f) r"

definition any_neuronal :: "fault_round \<Rightarrow> string \<Rightarrow> bool" where
  "any_neuronal r l = (search_neuronal r l \<noteq> [])"

definition any_parametric :: "fault_round \<Rightarrow> string \<Rightarrow> bool" where
  "any_parametric r l = (search_parametric r l \<noteq> [])"

definition any_synaptic :: "fault_round \<Rightarrow> string \<Rightarrow> bool" where
  "any_synaptic r l = (search_synaptic r l \<noteq> [])"

section \<open>The Campaign\<close>

text \<open>
  The accumulator of one Round (\<open>spikeStats().testing\<close>): correct samples, samples seen
  and the sum of the losses, a float kept abstract as \<open>'f\<close>.
\<close>

record 'f stats =
  correctSamples :: int
  numSamples :: int
  lossSum :: 'f

text \<open>
  A hook registered on a layer of the faulty network: which wrapper built it and for which
  layer name. The hooks of the faulty network are kept in registration order, each with
  the layer it was registered on; a handle is the position of its hook in that list.
\<close>

datatype hook =
    NeuronPre string
  | ParametricPost string
  | SynapticPre string
  | SynapticPost string

text \<open>
  The fields of \<open>Campaign\<close>. \<open>handles\<close> maps a layer name to three lists (one per fault
  target) of two slots, the pre-hook handle and the post-hook handle. \<open>faulty_hooks\<close> is the
  hook table of \<open>self.faulty\<close>; \<open>flayers\<close> lists the parametric fault models whose dummy
  layer \<open>param_perturb\<close> has built.
\<close>

record 'f campaign =
  layers_info :: layers_info
  slayer_neuron :: "string list"
  r_idx :: nat
  rounds :: "fault_round list"
  orounds :: "oround list"
  rgroups :: "(string option \<times> nat list) list"
  handles :: "string \<rightharpoonup> nat option list list"
  faulty_hooks :: "(string \<times> hook) list"
  flayers :: "fault_model list"
  performance :: "'f stats list"

definition campaign_init :: "layers_info \<Rightarrow> string list \<Rightarrow> 'f campaign" where
  "campaign_init li neuron =
     \<lparr>layers_info = li, slayer_neuron = neuron, r_idx = 0, rounds = [FaultRound],
      orounds = [], rgroups = [], handles = Map.empty, faulty_hooks = [], flayers = [],
      performance = []\<rparr>"

subsection \<open>define_random\<close>

text \<open>
  The random module is an explicit stream of draws. \<open>random.choice\<close> of an empty list
  raises \<open>IndexError\<close>, \<open>random.randrange\<close> of a bound below 1 raises \<open>ValueError\<close>.
\<close>

type_synonym rng = "nat \<Rightarrow> nat"

definition draw :: "rng \<Rightarrow> nat \<times> rng" where
  "draw g = (g 0, \<lambda>i. g (Suc i))"

definition random_choice :: "'a list \<Rightarrow> rng \<Rightarrow> (py_error + 'a) \<times> rng" where
  "random_choice xs g =
     (if xs = [] then (Inl IndexError, g)
      else (let (d, g') = draw g in (Inr (xs ! (d mod length xs)), g')))"

definition randrange :: "int \<Rightarrow> rng \<Rightarrow> (py_error + int) \<times> rng" where
  "randrange n g =
     (if n \<le> 0 then (Inl ValueError, g)
      else (let (d, g') = draw g in (Inr (int d mod n), g')))"

definition fill_coord :: "coord \<Rightarrow> int \<Rightarrow> rng \<Rightarrow> (py_error + coord) \<times> rng" where
  "fill_coord c dim g =
     (if c = Unset then
        (case randrange dim g of (Inl e, g') \<Rightarrow> (Inl e, g') | (Inr v, g') \<Rightarrow> (Inr (Idx v), g'))
      else (Inr c, g))"

text \<open>
  One pending site: the layer is drawn first when it is missing, then the coordinates in
  order; \<open>s.position\<close> is assigned only after all four are set, so an error in between
  leaves the old position (and the layer already drawn).
\<close>

definition define_random_site :: "layers_info \<Rightarrow> bool \<Rightarrow> fault_site \<Rightarrow> rng
    \<Rightarrow> fault_site \<times> rng \<times> py_error option" where
  "define_random_site li is_syn s g =
     (case (if layer_falsy s then
              (case random_choice (get_injectables li) g of
                 (Inl e, g1) \<Rightarrow> (Inl e, g1)
               | (Inr l, g1) \<Rightarrow> (Inr (s\<lparr>layer := Some l\<rparr>), g1))
            else (Inr s, g)) of
        (Inl e, g1) \<Rightarrow> (s, g1, Some e)
      | (Inr s1, g1) \<Rightarrow>
          (case get_shapes li is_syn (the (layer s1)) of
             None \<Rightarrow> (s1, g1, Some KeyError)
           | Some shape \<Rightarrow>
               (let pos = position s1; b = (if is_syn then 0 else 1) in
                case (if pget pos 0 = Unset \<and> \<not> is_syn then (Inr Wild, g1)
                      else fill_coord (pget pos 0) (shape ! 0) g1) of
                  (Inl e, g2) \<Rightarrow> (s1, g2, Some e)
                | (Inr p0, g2) \<Rightarrow>
                    (case fill_coord (pget pos 1) (shape ! (1 - b)) g2 of
                       (Inl e, g3) \<Rightarrow> (s1, g3, Some e)
                     | (Inr p1, g3) \<Rightarrow>
                         (case fill_coord (pget pos 2) (shape ! (2 - b)) g3 of
                            (Inl e, g4) \<Rightarrow> (s1, g4, Some e)
                          | (Inr p2, g4) \<Rightarrow>
                              (case fill_coord (pget pos 3) (shape ! (3 - b)) g4 of
                                 (Inl e, g5) \<Rightarrow> (s1, g5, Some e)
                               | (Inr p3, g5) \<Rightarrow>
                                   (s1\<lparr>position := Pos p0 p1 p2 p3\<rparr>, g5, None)))))))"

fun define_random_sites :: "layers_info \<Rightarrow> bool \<Rightarrow> fault_site list \<Rightarrow> rng
    \<Rightarrow> fault_site list \<times> rng \<times> py_error option" where
  "define_random_sites li is_syn [] g = ([], g, None)"
| "define_random_sites li is_syn (s # ss) g =
     (case define_random_site li is_syn s g of
        (s', g1, Some e) \<Rightarrow> (s' # ss, g1, Some e)
      | (s', g1, None) \<Rightarrow>
          (case define_random_sites li is_syn ss g1 of (ss', g2, e) \<Rightarrow> (s' # ss', g2, e)))"

text \<open>
  Modelled from the spec: \<open>Fault.refresh(discard_duplicates=False)\<close> recomputes the site
  set: a pending site that is now defined joins the sites unless it is already one of
  them, in which case it stays pending (the duplicate that \<open>define_random\<close> reports).
\<close>

definition refresh :: "fault \<Rightarrow> fault" where
  "refresh f =
     fold (\<lambda>s acc. if is_defined s \<and> s \<notin> set (sites acc) then acc\<lparr>sites := sites acc @ [s]\<rparr>
                    else acc\<lparr>sites_pending := sites_pending acc @ [s]\<rparr>)
          (sites_pending f) (f\<lparr>sites_pending := []\<rparr>)"

text \<open>
  \<open>define_random\<close> returns the faults as mutated so far, the stream left and the error
  raised, if any. The message it prints when duplicate sites remain is not modelled.
\<close>

fun define_random :: "layers_info \<Rightarrow> fault list \<Rightarrow> rng \<Rightarrow> fault list \<times> rng \<times> py_error option" where
  "define_random li [] g = ([], g, None)"
| "define_random li (f # fs) g =
     (case define_random_sites li (is_synaptic (model f)) (sites_pending f) g of
        (ps, g1, Some e) \<Rightarrow> (f\<lparr>sites_pending := ps\<rparr> # fs, g1, Some e)
      | (ps, g1, None) \<Rightarrow>
          (case define_random li fs g1 of
             (fs', g2, e) \<Rightarrow> (refresh (f\<lparr>sites_pending := ps\<rparr>) # fs', g2, e)))"

subsection \<open>validate\<close>

text \<open>
  \<open>-dim <= c < dim\<close> on a coordinate: an integer is compared; the wildcard (a slice) and
  \<open>None\<close> cannot be ordered against an integer and raise \<open>TypeError\<close>.
\<close>

fun coord_in_range :: "int \<Rightarrow> coord \<Rightarrow> py_error + bool" where
  "coord_in_range dim (Idx c) = Inr (- dim \<le> c \<and> c < dim)"
| "coord_in_range dim Wild = Inl TypeError"
| "coord_in_range dim Unset = Inl TypeError"

text \<open>
  The flag \<open>v\<close> of one site. Axis 0 is checked for a synaptic fault only; axes 1 to 3 are
  checked against \<open>shape[i]\<close> for a synaptic fault and \<open>shape[i - 1]\<close> otherwise. Every
  check is evaluated (\<open>v &= ...\<close>), whatever the flag so far.
\<close>

definition validate_site :: "layers_info \<Rightarrow> bool \<Rightarrow> fault_site \<Rightarrow> py_error + bool" where
  "validate_site li is_syn s =
     (if is_injectable li (layer s) then
        (case get_shapes li is_syn (the (layer s)) of
           None \<Rightarrow> Inl KeyError
         | Some shape \<Rightarrow>
             (let pos = position s; b = (if is_syn then 0 else 1) in
              bindE (if is_syn then coord_in_range (shape ! 0) (pget pos 0) else Inr True) (\<lambda>v0.
              bindE (coord_in_range (shape ! (1 - b)) (pget pos 1)) (\<lambda>v1.
              bindE (coord_in_range (shape ! (2 - b)) (pget pos 2)) (\<lambda>v2.
              bindE (coord_in_range (shape ! (3 - b)) (pget pos 3)) (\<lambda>v3.
              Inr (v0 \<and> v1 \<and> v2 \<and> v3)))))))
      else Inr False)"

fun to_remove :: "layers_info \<Rightarrow> bool \<Rightarrow> fault_site list \<Rightarrow> py_error + fault_site list" where
  "to_remove li is_syn [] = Inr []"
| "to_remove li is_syn (s # ss) =
     bindE (validate_site li is_syn s) (\<lambda>v.
     bindE (to_remove li is_syn ss) (\<lambda>rest.
     Inr (if v then rest else s # rest)))"

text \<open>
  \<open>validate\<close> returns the passed faults as mutated so far and either the error raised or
  the list \<open>valid_faults\<close>. A parametric fault whose parameter name the neuron model does
  not have is skipped before any of its sites is looked at.
\<close>

fun validate :: "layers_info \<Rightarrow> string list \<Rightarrow> fault list \<Rightarrow> fault list \<times> (py_error + fault list)" where
  "validate li neuron [] = ([], Inr [])"
| "validate li neuron (f # fs) =
     (if is_parametric (model f) \<and> param_name (model f) \<notin> set neuron then
        (case validate li neuron fs of (fs', r) \<Rightarrow> (f # fs', r))
      else
        (case to_remove li (is_synaptic (model f)) (sites f) of
           Inl e \<Rightarrow> (f # fs, Inl e)
         | Inr rm \<Rightarrow>
             (let f' = f\<lparr>sites := filter (\<lambda>s. s \<notin> set rm) (sites f)\<rparr> in
              case validate li neuron fs of
                (fs', r) \<Rightarrow>
                  (f' # fs', bindE r (\<lambda>vs. Inr (if fault_truthy f' then f' # vs else vs))))))"

subsection \<open>inject and then_inject\<close>

text \<open>
  \<open>inject\<close> returns the Campaign, the passed faults and the random stream as they are
  when it returns or raises, and the list it returns or the error. The assertion on
  \<open>round_idx\<close> is its first statement.
\<close>

definition inject :: "'f campaign \<Rightarrow> fault list \<Rightarrow> int \<Rightarrow> rng
    \<Rightarrow> ('f campaign \<times> fault list \<times> rng) \<times> (py_error + fault list)" where
  "inject c faults round_idx g =
     (if \<not> (- int (length (rounds c)) \<le> round_idx \<and> round_idx < int (length (rounds c))) then
        ((c, faults, g), Inl (AssertionError ''Invalid round index''))
      else
        (case define_random (layers_info c) faults g of
           (fs1, g1, Some e) \<Rightarrow> ((c, fs1, g1), Inl e)
         | (fs1, g1, None) \<Rightarrow>
             (case validate (layers_info c) (slayer_neuron c) fs1 of
                (fs2, Inl e) \<Rightarrow> ((c, fs2, g1), Inl e)
              | (fs2, Inr inj_faults) \<Rightarrow>
                  (let k = py_pos (rounds c) round_idx in
                   ((c\<lparr>rounds := (rounds c)[k := insert_many (rounds c ! k) inj_faults]\<rparr>, fs2, g1),
                    Inr inj_faults)))))"

definition then_inject :: "'f campaign \<Rightarrow> fault list \<Rightarrow> rng
    \<Rightarrow> ('f campaign \<times> fault list \<times> rng) \<times> (py_error + fault list)" where
  "then_inject c faults g = inject (c\<lparr>rounds := rounds c @ [FaultRound]\<rparr>) faults (- 1) g"

subsection \<open>eject\<close>

text \<open>
  \<open>faults\<close> and \<open>round_idx\<close> default to \<open>None\<close>; both are tested for truthiness, so an
  empty collection counts as absent and so does the index 0. \<open>self.rounds.pop(r)\<close> in the
  all-rounds branch is called with the Round itself, not with an index: \<open>list.pop\<close> then
  raises \<open>TypeError\<close>. \<open>eject\<close> returns the Campaign as it is when it returns or raises.
\<close>

definition faults_truthy :: "fault list option \<Rightarrow> bool" where
  "faults_truthy faults = (case faults of None \<Rightarrow> False | Some fs \<Rightarrow> fs \<noteq> [])"

definition idx_truthy :: "int option \<Rightarrow> bool" where
  "idx_truthy round_idx = (case round_idx of None \<Rightarrow> False | Some i \<Rightarrow> i \<noteq> 0)"

fun eject_all :: "fault_round list \<Rightarrow> fault list \<Rightarrow> fault_round list \<times> py_error option" where
  "eject_all [] fs = ([], None)"
| "eject_all (r # rs) fs =
     (let r' = extract_many r fs in
      if r' = [] then (r' # rs, Some TypeError)
      else (case eject_all rs fs of (rs', e) \<Rightarrow> (r' # rs', e)))"

definition pop_at :: "'a list \<Rightarrow> nat \<Rightarrow> 'a list" where
  "pop_at xs i = take i xs @ drop (Suc i) xs"

definition eject_round :: "fault_round list \<Rightarrow> fault list option \<Rightarrow> int
    \<Rightarrow> fault_round list \<times> py_error option" where
  "eject_round rs faults i =
     (if \<not> py_index_ok rs i then (rs, Some IndexError)
      else
        (let k = py_pos rs i;
             rs1 = (if faults_truthy faults then rs[k := extract_many (rs ! k) (the faults)] else rs)
         in if \<not> faults_truthy faults \<or> rs1 ! k = [] then (pop_at rs1 k, None) else (rs1, None)))"

definition eject :: "'f campaign \<Rightarrow> fault list option \<Rightarrow> int option
    \<Rightarrow> 'f campaign \<times> py_error option" where
  "eject c faults round_idx =
     (case (if idx_truthy round_idx then eject_round (rounds c) faults (the round_idx)
            else if faults_truthy faults then eject_all (rounds c) (the faults)
            else ([], None)) of
        (rs, Some err) \<Rightarrow> (c\<lparr>rounds := rs\<rparr>, Some err)
      | (rs, None) \<Rightarrow> (c\<lparr>rounds := (if rs = [] then [FaultRound] else rs)\<rparr>, None))"

section \<open>Preparing a run\<close>

text \<open>
  Statements that may raise are sequenced: the second runs on the state the first left,
  unless the first raised.
\<close>

definition seq :: "('s \<Rightarrow> 's \<times> py_error option) \<Rightarrow> ('s \<Rightarrow> 's \<times> py_error option)
    \<Rightarrow> 's \<Rightarrow> 's \<times> py_error option" where
  "seq a b s = (case a s of (s', Some e) \<Rightarrow> (s', Some e) | (s', None) \<Rightarrow> b s')"

fun seq_all :: "('a \<Rightarrow> 's \<Rightarrow> 's \<times> py_error option) \<Rightarrow> 'a list \<Rightarrow> 's \<Rightarrow> 's \<times> py_error option" where
  "seq_all f [] s = (s, None)"
| "seq_all f (x # xs) s = seq (f x) (seq_all f xs) s"

subsection \<open>_perturb_net\<close>

text \<open>
  \<open>[[None] * 2 for _ in range(3)]\<close>, the slot \<open>handles[layer_name][t][k]\<close> and its
  assignment. A handle is truthy, so a slot is falsy exactly when it is \<open>None\<close>.
\<close>

definition empty_slots :: "nat option list list" where
  "empty_slots = replicate 3 (replicate 2 None)"

definition slot :: "'f campaign \<Rightarrow> string \<Rightarrow> nat \<Rightarrow> nat \<Rightarrow> nat option" where
  "slot c l t k = (case handles c l of None \<Rightarrow> None | Some tbl \<Rightarrow> tbl ! t ! k)"

definition set_slot :: "string \<Rightarrow> nat \<Rightarrow> nat \<Rightarrow> nat \<Rightarrow> 'f campaign \<Rightarrow> 'f campaign" where
  "set_slot l t k h c =
     (case handles c l of
        None \<Rightarrow> c
      | Some tbl \<Rightarrow> c\<lparr>handles := (handles c)(l \<mapsto> tbl[t := (tbl ! t)[k := Some h]])\<rparr>)"

text \<open>
  \<open>register_forward_pre_hook\<close> and \<open>register_forward_hook\<close> on a layer of the faulty
  network: the hook is added to the network's hooks and its handle returned.
\<close>

definition register :: "string \<Rightarrow> hook \<Rightarrow> 'f campaign \<Rightarrow> nat \<times> 'f campaign" where
  "register host h c = (length (faulty_hooks c), c\<lparr>faulty_hooks := faulty_hooks c @ [(host, h)]\<rparr>)"

definition setdefault_slots :: "string \<Rightarrow> 'f campaign \<Rightarrow> 'f campaign" where
  "setdefault_slots l c =
     (case handles c l of None \<Rightarrow> c\<lparr>handles := (handles c)(l \<mapsto> empty_slots)\<rparr> | Some tbl \<Rightarrow> c)"

text \<open>
  The three parts of the loop body of \<open>_perturb_net\<close> for one injectable layer. The
  neuronal pre-hook goes on the following layer; \<open>getattr\<close> with no following layer name
  raises \<open>TypeError\<close>. The layers the registry names are taken to be attributes of the
  network, which the registry was inferred from.
\<close>

definition perturb_neuronal :: "fault_round \<Rightarrow> string \<Rightarrow> 'f campaign \<Rightarrow> 'f campaign \<times> py_error option" where
  "perturb_neuronal r l c =
     (if \<not> is_output (layers_info c) l \<and> slot c l (get_index Z) 0 = None then
        (case get_following (layers_info c) l of
           None \<Rightarrow> (c, Some TypeError)
         | Some following \<Rightarrow>
             (case register following (NeuronPre l) c of
                (h, c') \<Rightarrow> (set_slot l (get_index Z) 0 h c', None)))
      else (c, None))"

definition perturb_parametric :: "fault_round \<Rightarrow> string \<Rightarrow> 'f campaign \<Rightarrow> 'f campaign \<times> py_error option" where
  "perturb_parametric r l c =
     (if any_parametric r l then
        (let c1 = c\<lparr>flayers := flayers c @ map model (search_parametric r l)\<rparr> in
         if slot c1 l (get_index P) 1 = None then
           (case register l (ParametricPost l) c1 of
              (h, c') \<Rightarrow> (set_slot l (get_index P) 1 h c', None))
         else (c1, None))
      else (c, None))"

definition perturb_synaptic :: "fault_round \<Rightarrow> string \<Rightarrow> 'f campaign \<Rightarrow> 'f campaign \<times> py_error option" where
  "perturb_synaptic r l c =
     (if any_synaptic r l \<and> slot c l (get_index W) 0 = None \<and> slot c l (get_index W) 1 = None then
        (case register l (SynapticPre l) c of
           (h0, c0) \<Rightarrow>
             (case register l (SynapticPost l) (set_slot l (get_index W) 0 h0 c0) of
                (h1, c1) \<Rightarrow> (set_slot l (get_index W) 1 h1 c1, None)))
      else (c, None))"

definition perturb_layer :: "fault_round \<Rightarrow> string \<Rightarrow> 'f campaign \<Rightarrow> 'f campaign \<times> py_error option" where
  "perturb_layer r l c =
     seq (\<lambda>c. if any_neuronal r l then seq (perturb_neuronal r l) (perturb_parametric r l) c
               else (c, None))
         (perturb_synaptic r l)
         (setdefault_slots l c)"

definition perturb_net :: "oround \<Rightarrow> 'f campaign \<Rightarrow> 'f campaign \<times> py_error option" where
  "perturb_net orr c =
     seq_all (perturb_layer (oround_faults orr)) (get_injectables (layers_info c)) c"

subsection \<open>_pre_run\<close>

text \<open>
  \<open>rgroups.setdefault(key, list())\<close> followed by \<open>rgroups[key].append(r)\<close> on a dictionary
  kept in insertion order, and the final sort of the groups by the index of their earliest
  layer, the group of the empty Rounds first. \<open>sorted\<close> is stable, as \<open>sort_key\<close> is.
\<close>

definition rgroups_add :: "(string option \<times> nat list) list \<Rightarrow> string option \<Rightarrow> nat
    \<Rightarrow> (string option \<times> nat list) list" where
  "rgroups_add g k r =
     (if k \<in> fst ` set g then map (\<lambda>(k', v). if k' = k then (k', v @ [r]) else (k', v)) g
      else g @ [(k, [r])])"

definition group_key :: "layers_info \<Rightarrow> string option \<Rightarrow> int option" where
  "group_key li k =
     (case k of None \<Rightarrow> Some (- 1) | Some n \<Rightarrow> map_option int (index_of (order li) n))"

definition sort_rgroups :: "'f campaign \<Rightarrow> 'f campaign \<times> py_error option" where
  "sort_rgroups c =
     (if list_ex (\<lambda>(k, v). group_key (layers_info c) k = None) (rgroups c) then (c, Some ValueError)
      else (c\<lparr>rgroups := sort_key (\<lambda>(k, v). the (group_key (layers_info c) k)) (rgroups c)\<rparr>, None))"

text \<open>
  One iteration of the loop over the Rounds, for the Round \<open>round\<close> at index \<open>r\<close>; \<open>z\<close> is
  the float zero a new accumulator starts from.
\<close>

definition spikeStats :: "'f \<Rightarrow> 'f stats" where
  "spikeStats z = \<lparr>correctSamples = 0, numSamples = 0, lossSum = z\<rparr>"

definition pre_run_round :: "'f \<Rightarrow> nat \<times> fault_round \<Rightarrow> 'f campaign \<Rightarrow> 'f campaign \<times> py_error option" where
  "pre_run_round z p c =
     (case p of (r, round) \<Rightarrow>
        (case optimized (layers_info c) round of
           Inl e \<Rightarrow> (c, Some e)
         | Inr orr \<Rightarrow>
             seq (perturb_net orr)
                 (\<lambda>c. (c\<lparr>performance := performance c @ [spikeStats z]\<rparr>, None))
                 (c\<lparr>orounds := orounds c @ [orr],
                    rgroups := rgroups_add (rgroups c) (early_name orr) r\<rparr>)))"

definition pre_run :: "'f \<Rightarrow> 'f campaign \<Rightarrow> 'f campaign \<times> py_error option" where
  "pre_run z c =
     (let c0 = c\<lparr>rounds := (if rounds c = [] then [FaultRound] else rounds c),
                 r_idx := 0, orounds := [], rgroups := [], handles := Map.empty,
                 performance := [], faulty_hooks := []\<rparr>
      in seq (seq_all (pre_run_round z) (enumerate 0 (rounds c0))) sort_rgroups c0)"

text \<open>
  The slot a hook belongs to: layer name, target index, and 0 for the pre-hook or 1 for
  the post-hook; and the hooks that were registered for a slot.
\<close>

fun hook_slot :: "hook \<Rightarrow> string \<times> nat \<times> nat" where
  "hook_slot (NeuronPre l) = (l, get_index Z, 0)"
| "hook_slot (ParametricPost l) = (l, get_index P, 1)"
| "hook_slot (SynapticPre l) = (l, get_index W, 0)"
| "hook_slot (SynapticPost l) = (l, get_index W, 1)"

definition registered_for :: "'f campaign \<Rightarrow> string \<Rightarrow> nat \<Rightarrow> nat \<Rightarrow> (string \<times> hook) list" where
  "registered_for c l t k = filter (\<lambda>(host, h). hook_slot h = (l, t, k)) (faulty_hooks c)"

section \<open>Evaluation\<close>

text \<open>
  What the Campaign consumes from the tensor and network layer, as parameters. Tensors are
  of an abstract type \<open>'t\<close>, label batches of type \<open>'l\<close>, floats of type \<open>'f\<close>, and \<open>'w\<close> is
  the mutable state of the faulty network (its weights and what its fault models store).
  \<^item> \<open>golden_layer n x\<close>: the layer \<open>n\<close> of the golden network applied to \<open>x\<close>; the golden
    network is in evaluation mode and carries no hook.
  \<^item> \<open>faulty_layer r n w x\<close>: the call of layer \<open>n\<close> of the faulty network on \<open>x\<close> in state
    \<open>w\<close>, its hooks reading the Round of index \<open>r\<close> (\<open>self.r_idx\<close>); it gives the output
    and the new state.
  \<^item> \<open>spike_psp x\<close> is \<open>slayer.spike(slayer.psp(x))\<close>, \<open>torch_equal\<close> is \<open>torch.equal\<close>.
  \<^item> \<open>perturb_at m s x\<close> is \<open>x\<close> after \<open>x[ind] = m.perturb(x[ind], s)\<close> with
    \<open>ind = s.unroll()\<close>.
  \<^item> \<open>num_correct out label\<close> is \<open>torch.sum(snn.predict.getClass(out) == label).item()\<close>,
    \<open>len_label\<close> is \<open>len(label)\<close>, \<open>float_add\<close> the addition of floats, \<open>float_zero\<close> the
    float 0, \<open>stats_update\<close> is \<open>spikeStats.update\<close>, and \<open>golden_copy\<close> the state of a deep
    copy of the golden network.
  The progress counter and its thread only report and are left out.
\<close>

record ('t, 'l, 'f, 'w) env =
  golden_layer :: "string \<Rightarrow> 't \<Rightarrow> 't"
  faulty_layer :: "nat \<Rightarrow> string \<Rightarrow> 'w \<Rightarrow> 't \<Rightarrow> 't \<times> 'w"
  spike_psp :: "'t \<Rightarrow> 't"
  torch_equal :: "'t \<Rightarrow> 't \<Rightarrow> bool"
  perturb_at :: "fault_model \<Rightarrow> fault_site \<Rightarrow> 't \<Rightarrow> 't"
  num_correct :: "'t \<Rightarrow> 'l \<Rightarrow> int"
  len_label :: "'l \<Rightarrow> int"
  float_add :: "'f \<Rightarrow> 'f \<Rightarrow> 'f"
  float_zero :: 'f
  stats_update :: "'f stats \<Rightarrow> 'f stats"
  golden_copy :: 'w

subsection \<open>_forward_opt_wrapper\<close>

text \<open>
  \<open>forward_opt\<close> runs the layers whose index lies in \<open>[start_idx, end_idx]\<close> in order; the
  output of every layer that is not a dropout layer goes through \<open>spike(psp(...))\<close>. It
  is the forward function of both networks; \<open>net\<close> is the layer call of the network it is
  bound to.
\<close>

definition subject_layers :: "layers_info \<Rightarrow> int \<Rightarrow> int \<Rightarrow> string list" where
  "subject_layers li start_idx end_idx =
     map snd (filter (\<lambda>(lay_idx, lay_name). start_idx \<le> int lay_idx \<and> int lay_idx \<le> end_idx)
                     (enumerate 0 (order li)))"

definition layer_step :: "layers_info \<Rightarrow> ('t \<Rightarrow> 't) \<Rightarrow> (string \<Rightarrow> 'w \<Rightarrow> 't \<Rightarrow> 't \<times> 'w)
    \<Rightarrow> string \<Rightarrow> 't \<times> 'w \<Rightarrow> 't \<times> 'w" where
  "layer_step li spk net layer_name p =
     (case p of (spikes, w) \<Rightarrow>
        (case net layer_name w spikes of
           (out, w') \<Rightarrow> (if \<not> layer_is_dropout li layer_name then spk out else out, w')))"

definition forward_opt :: "layers_info \<Rightarrow> ('t \<Rightarrow> 't) \<Rightarrow> (string \<Rightarrow> 'w \<Rightarrow> 't \<Rightarrow> 't \<times> 'w)
    \<Rightarrow> 't \<Rightarrow> int option \<Rightarrow> int option \<Rightarrow> 'w \<Rightarrow> 't \<times> 'w" where
  "forward_opt li spk net spikes_in start_layer_idx end_layer_idx w =
     (let start_idx = (case start_layer_idx of None \<Rightarrow> 0 | Some i \<Rightarrow> i);
          end_idx = (case end_layer_idx of None \<Rightarrow> int (length li) - 1 | Some i \<Rightarrow> i)
      in fold (layer_step li spk net) (subject_layers li start_idx end_idx) (spikes_in, w))"

definition golden :: "('t, 'l, 'f, 'w) env \<Rightarrow> layers_info \<Rightarrow> 't \<Rightarrow> int option \<Rightarrow> int option \<Rightarrow> 't" where
  "golden env li x s e =
     fst (forward_opt li (spike_psp env) (\<lambda>n w y. (golden_layer env n y, w)) x s e ())"

definition faulty :: "('t, 'l, 'f, 'w) env \<Rightarrow> layers_info \<Rightarrow> nat \<Rightarrow> 't \<Rightarrow> int option \<Rightarrow> int option
    \<Rightarrow> 'w \<Rightarrow> 't \<times> 'w" where
  "faulty env li r x s e w = forward_opt li (spike_psp env) (faulty_layer env r) x s e w"

subsection \<open>_neuron_pre_hook_wrapper\<close>

definition neuron_pre_hook :: "('t, 'l, 'f, 'w) env \<Rightarrow> oround \<Rightarrow> string \<Rightarrow> 't \<Rightarrow> 't" where
  "neuron_pre_hook env orr layer_name prev_spikes_out =
     fold (\<lambda>f x. fold (\<lambda>s y. perturb_at env (model f) s y) (sites f) x)
          (search_neuronal (oround_faults orr) layer_name) prev_spikes_out"

subsection \<open>_synaptic_pre_hook_wrapper and _synaptic_hook_wrapper\<close>

text \<open>
  The weight tensor of a layer: its shape, of four axes, and its elements in row-major
  order. Indexing is that of torch: a concrete index \<open>i\<close> on an axis of size \<open>d\<close> must
  satisfy \<open>-d \<le> i < d\<close> (\<open>IndexError\<close> otherwise) and a negative one counts from the end;
  a slice selects the whole axis. \<open>offsets\<close> lists the elements an index tuple addresses.
  \<open>.item()\<close> needs exactly one of them (a \<open>ValueError\<close> here otherwise); an assignment
  writes the value to all of them.

  Modelled from the spec: \<open>FaultSite.unroll\<close> of spikefi/fault.py is not among the
  sources. It gives the index tuple of a site, each coordinate a concrete index or the
  wildcard; a coordinate that is still unset has no index (a \<open>TypeError\<close> here).
\<close>

record 'v tensor =
  t_shape :: "nat \<times> nat \<times> nat \<times> nat"
  t_data :: "'v list"

definition unroll :: "fault_site \<Rightarrow> coord list" where
  "unroll s = map (pget (position s)) [0, 1, 2, 3]"

definition axis_indices :: "nat \<Rightarrow> coord \<Rightarrow> py_error + nat list" where
  "axis_indices d c =
     (case c of
        Unset \<Rightarrow> Inl TypeError
      | Wild \<Rightarrow> Inr [0..<d]
      | Idx i \<Rightarrow> if - int d \<le> i \<and> i < int d then Inr [nat (if i < 0 then i + int d else i)]
                 else Inl IndexError)"

definition offsets :: "nat \<times> nat \<times> nat \<times> nat \<Rightarrow> coord list \<Rightarrow> py_error + nat list" where
  "offsets shp ind =
     (case shp of (d0, d1, d2, d3) \<Rightarrow>
        (case ind of
           [c0, c1, c2, c3] \<Rightarrow>
             bindE (axis_indices d0 c0) (\<lambda>is0.
             bindE (axis_indices d1 c1) (\<lambda>is1.
             bindE (axis_indices d2 c2) (\<lambda>is2.
             bindE (axis_indices d3 c3) (\<lambda>is3.
               Inr (concat (map (\<lambda>i0. concat (map (\<lambda>i1. concat (map (\<lambda>i2.
                      map (\<lambda>i3. ((i0 * d1 + i1) * d2 + i2) * d3 + i3) is3) is2)) is1)) is0))))))
         | _ \<Rightarrow> Inl IndexError))"

text \<open>
  Modelled from the spec: \<open>FaultModel.perturb_store\<close> and \<open>FaultModel.restore\<close> of
  spikefi/fault.py are not among the sources. A Fault Model carries per-site saved original
  values: \<open>perturb_store\<close> retains the value it is given for the site and returns its
  perturbation, \<open>restore\<close> returns the value retained for the site (a \<open>KeyError\<close> here
  when there is none). \<open>perturb\<close>, the perturbation of a value by a model at a site, is a
  parameter. The store of a model is keyed by the model and the site.
\<close>

type_synonym 'v originals = "fault_model \<times> fault_site \<rightharpoonup> 'v"

definition perturb_store :: "(fault_model \<Rightarrow> 'v \<Rightarrow> fault_site \<Rightarrow> 'v) \<Rightarrow> fault_model \<Rightarrow> 'v \<Rightarrow> fault_site
    \<Rightarrow> 'v originals \<Rightarrow> 'v \<times> 'v originals" where
  "perturb_store perturb m original s saved = (perturb m original s, saved((m, s) \<mapsto> original))"

definition restore :: "fault_model \<Rightarrow> fault_site \<Rightarrow> 'v originals \<Rightarrow> py_error + 'v" where
  "restore m s saved = (case saved (m, s) of None \<Rightarrow> Inl KeyError | Some v \<Rightarrow> Inr v)"

text \<open>
  The state the synaptic hooks of a layer work on: the weight tensor of the layer in the
  faulty network and what the fault models have stored.
\<close>

record 'v synapses =
  layer_weight :: "'v tensor"
  saved :: "'v originals"

text \<open>
  \<open>layer.weight[ind] = fault.model.perturb_store(layer.weight[ind].item(), site)\<close> for one
  site of a Fault, and \<open>layer.weight[site.unroll()] = fault.model.restore(site)\<close>; the right
  hand side is evaluated first.
\<close>

definition synaptic_pre_site :: "(fault_model \<Rightarrow> 'v \<Rightarrow> fault_site \<Rightarrow> 'v) \<Rightarrow> fault_model \<Rightarrow> fault_site
    \<Rightarrow> 'v synapses \<Rightarrow> 'v synapses \<times> py_error option" where
  "synaptic_pre_site perturb m s st =
     (case offsets (t_shape (layer_weight st)) (unroll s) of
        Inl e \<Rightarrow> (st, Some e)
      | Inr offs \<Rightarrow>
          (case offs of
             [k] \<Rightarrow>
               (case perturb_store perturb m (t_data (layer_weight st) ! k) s (saved st) of
                  (v, saved') \<Rightarrow>
                    (st\<lparr>layer_weight := (layer_weight st)\<lparr>t_data := (t_data (layer_weight st))[k := v]\<rparr>,
                        saved := saved'\<rparr>, None))
           | _ \<Rightarrow> (st, Some ValueError)))"

definition synaptic_post_site :: "fault_model \<Rightarrow> fault_site \<Rightarrow> 'v synapses
    \<Rightarrow> 'v synapses \<times> py_error option" where
  "synaptic_post_site m s st =
     (case restore m s (saved st) of
        Inl e \<Rightarrow> (st, Some e)
      | Inr v \<Rightarrow>
          (case offsets (t_shape (layer_weight st)) (unroll s) of
             Inl e \<Rightarrow> (st, Some e)
           | Inr offs \<Rightarrow>
               (st\<lparr>layer_weight := (layer_weight st)\<lparr>t_data :=
                      fold (\<lambda>k d. d[k := v]) offs (t_data (layer_weight st))\<rparr>\<rparr>, None)))"

text \<open>
  The two hooks: both loop over \<open>self.orounds[self.r_idx].search_synaptic(layer_name)\<close> and,
  for each Fault, over all its sites, in the same order.
\<close>

definition synaptic_pre_hook :: "(fault_model \<Rightarrow> 'v \<Rightarrow> fault_site \<Rightarrow> 'v) \<Rightarrow> 'f campaign \<Rightarrow> string
    \<Rightarrow> 'v synapses \<Rightarrow> 'v synapses \<times> py_error option" where
  "synaptic_pre_hook perturb c layer_name st =
     (if \<not> r_idx c < length (orounds c) then (st, Some IndexError)
      else seq_all (\<lambda>f. seq_all (synaptic_pre_site perturb (model f)) (sites f))
                   (search_synaptic (oround_faults (orounds c ! r_idx c)) layer_name) st)"

definition synaptic_hook :: "'f campaign \<Rightarrow> string \<Rightarrow> 'v synapses \<Rightarrow> 'v synapses \<times> py_error option" where
  "synaptic_hook c layer_name st =
     (if \<not> r_idx c < length (orounds c) then (st, Some IndexError)
      else seq_all (\<lambda>f. seq_all (synaptic_post_site (model f)) (sites f))
                   (search_synaptic (oround_faults (orounds c ! r_idx c)) layer_name) st)"

text \<open>
  One forward pass of a layer that has both hooks registered: the pre-hook, the computation
  of the layer, which reads the weights (\<open>forward\<close>, a parameter) and changes neither them
  nor the stores, and the post-hook.
\<close>

definition layer_pass :: "(fault_model \<Rightarrow> 'v \<Rightarrow> fault_site \<Rightarrow> 'v) \<Rightarrow> ('v tensor \<Rightarrow> 't \<Rightarrow> 't)
    \<Rightarrow> 'f campaign \<Rightarrow> string \<Rightarrow> 'v synapses \<times> 't \<Rightarrow> ('v synapses \<times> 't) \<times> py_error option" where
  "layer_pass perturb forward c layer_name p =
     (case p of (st, x) \<Rightarrow>
        (case synaptic_pre_hook perturb c layer_name st of
           (st1, Some e) \<Rightarrow> ((st1, x), Some e)
         | (st1, None) \<Rightarrow>
             (let out = forward (layer_weight st1) x in
              case synaptic_hook c layer_name st1 of (st2, e) \<Rightarrow> ((st2, out), e))))"

subsection \<open>_advance_performance\<close>

text \<open>\<open>error\<close> is the optional loss: when given, \<open>error.numSpikes(output, target)\<close> as a float.\<close>

definition advance_performance :: "('t, 'l, 'f, 'w) env \<Rightarrow> 'f stats \<Rightarrow> 't \<Rightarrow> 't \<Rightarrow> 'l
    \<Rightarrow> ('t \<Rightarrow> 't \<Rightarrow> 'f) option \<Rightarrow> 'f stats" where
  "advance_performance env st output tgt label error =
     st\<lparr>correctSamples := correctSamples st + num_correct env output label,
        numSamples := numSamples st + len_label env label,
        lossSum := (case error of
                      None \<Rightarrow> lossSum st
                    | Some num_spikes \<Rightarrow> float_add env (lossSum st) (num_spikes output tgt))\<rparr>"

subsection \<open>_evaluate_optimized\<close>

text \<open>
  The golden activations of one batch: the input, then the output of every layer, each
  computed from the previous entry by the golden network run on that single layer.
\<close>

definition golden_spikes :: "('t, 'l, 'f, 'w) env \<Rightarrow> layers_info \<Rightarrow> 't \<Rightarrow> 't list" where
  "golden_spikes env li input =
     fold (\<lambda>layer_idx gs. gs @ [golden env li (gs ! layer_idx) (Some (int layer_idx))
                                               (Some (int layer_idx))])
          [0..<length li] [input]"

text \<open>
  The output of one Round on one batch, and the state the faulty network is left in.
  An index that is \<open>None\<close> cannot index a list nor be added to (\<open>TypeError\<close>); as the
  end of a range it means the last layer.
\<close>

definition round_output :: "('t, 'l, 'f, 'w) env \<Rightarrow> layers_info \<Rightarrow> 't list \<Rightarrow> nat \<Rightarrow> oround \<Rightarrow> 'w
    \<Rightarrow> (py_error + 't) \<times> 'w" where
  "round_output env li gs r orr w =
     (if oround_truthy orr then
        (case early_idx orr of
           None \<Rightarrow> (Inl TypeError, w)
         | Some e \<Rightarrow>
             (case py_get gs e of
                Inl err \<Rightarrow> (Inl err, w)
              | Inr seed \<Rightarrow>
                  (case faulty env li r seed (Some e) (late_idx orr) w of
                     (late_out, w1) \<Rightarrow>
                       if is_out_faulty orr then
                         (Inr (neuron_pre_hook env orr (last (order li)) late_out), w1)
                       else
                         (case late_idx orr of
                            None \<Rightarrow> (Inl TypeError, w1)
                          | Some l \<Rightarrow>
                              (case faulty env li r late_out (Some (l + 1)) (Some (l + 1)) w1 of
                                 (late_next_out, w2) \<Rightarrow>
                                   (case py_get gs (l + 2) of
                                      Inl err \<Rightarrow> (Inl err, w2)
                                    | Inr g \<Rightarrow>
                                        if torch_equal env late_next_out g then (py_get gs (- 1), w2)
                                        else (case faulty env li r late_next_out (Some (l + 2)) None w2 of
                                                (out, w3) \<Rightarrow> (Inr out, w3))))))))
      else (py_get gs (- 1), w))"

text \<open>
  One Round of one batch: \<open>self.r_idx\<close> is set, the Round's output computed and its
  accumulator advanced. The state is the Campaign with the state of the faulty network.
\<close>

definition round_step :: "('t, 'l, 'f, 'w) env \<Rightarrow> ('t \<Rightarrow> 't \<Rightarrow> 'f) option \<Rightarrow> 't \<times> 't \<times> 'l \<Rightarrow> 't list
    \<Rightarrow> nat \<Rightarrow> 'f campaign \<times> 'w \<Rightarrow> ('f campaign \<times> 'w) \<times> py_error option" where
  "round_step env error batch gs r s =
     (case s of (c, w) \<Rightarrow>
       (case batch of (input, tgt, label) \<Rightarrow>
        (let c1 = c\<lparr>r_idx := r\<rparr> in
         if \<not> r < length (orounds c1) then ((c1, w), Some IndexError)
         else
           (case round_output env (layers_info c1) gs r (orounds c1 ! r) w of
              (Inl err, w') \<Rightarrow> ((c1, w'), Some err)
            | (Inr output, w') \<Rightarrow>
                if \<not> r < length (performance c1) then ((c1, w'), Some IndexError)
                else ((c1\<lparr>performance := (performance c1)[r :=
                          advance_performance env (performance c1 ! r) output tgt label error]\<rparr>,
                       w'), None)))))"

definition batch_step :: "('t, 'l, 'f, 'w) env \<Rightarrow> ('t \<Rightarrow> 't \<Rightarrow> 'f) option \<Rightarrow> 't \<times> 't \<times> 'l
    \<Rightarrow> 'f campaign \<times> 'w \<Rightarrow> ('f campaign \<times> 'w) \<times> py_error option" where
  "batch_step env error batch s =
     seq_all (round_step env error batch (golden_spikes env (layers_info (fst s)) (fst batch)))
             (concat (map snd (rgroups (fst s)))) s"

definition evaluate_optimized :: "('t, 'l, 'f, 'w) env \<Rightarrow> ('t \<Rightarrow> 't \<Rightarrow> 'f) option \<Rightarrow> ('t \<times> 't \<times> 'l) list
    \<Rightarrow> 'f campaign \<times> 'w \<Rightarrow> ('f campaign \<times> 'w) \<times> py_error option" where
  "evaluate_optimized env error test_loader s =
     (case py_get (order (layers_info (fst s))) (- 1) of
        Inl err \<Rightarrow> (s, Some err)
      | Inr out_name \<Rightarrow> seq_all (batch_step env error) test_loader s)"

subsection \<open>_evaluate_single\<close>

definition single_step :: "('t, 'l, 'f, 'w) env \<Rightarrow> ('t \<Rightarrow> 't \<Rightarrow> 'f) option \<Rightarrow> bool \<Rightarrow> string
    \<Rightarrow> 't \<times> 't \<times> 'l \<Rightarrow> 'f campaign \<times> 'w \<Rightarrow> ('f campaign \<times> 'w) \<times> py_error option" where
  "single_step env error out_faulty out_name batch s =
     (case s of (c, w) \<Rightarrow>
       (case batch of (input, tgt, label) \<Rightarrow>
        (case faulty env (layers_info c) (r_idx c) input None None w of
           (out0, w') \<Rightarrow>
             if \<not> r_idx c < length (orounds c) then ((c, w'), Some IndexError)
             else
               (let output = (if out_faulty then neuron_pre_hook env (orounds c ! r_idx c) out_name out0
                              else out0)
                in if \<not> r_idx c < length (performance c) then ((c, w'), Some IndexError)
                   else ((c\<lparr>performance := (performance c)[r_idx c :=
                             advance_performance env (performance c ! r_idx c) output tgt label error]\<rparr>,
                          w'), None)))))"

definition evaluate_single :: "('t, 'l, 'f, 'w) env \<Rightarrow> ('t \<Rightarrow> 't \<Rightarrow> 'f) option \<Rightarrow> ('t \<times> 't \<times> 'l) list
    \<Rightarrow> 'f campaign \<times> 'w \<Rightarrow> ('f campaign \<times> 'w) \<times> py_error option" where
  "evaluate_single env error test_loader s =
     (case s of (c, w) \<Rightarrow>
       if \<not> r_idx c < length (orounds c) then (s, Some IndexError)
       else
         (case py_get (order (layers_info c)) (- 1) of
            Inl err \<Rightarrow> (s, Some err)
          | Inr out_name \<Rightarrow>
              seq_all (single_step env error (is_out_faulty (orounds c ! r_idx c)) out_name)
                      test_loader s))"

subsection \<open>run and run_complete\<close>

text \<open>
  \<open>run\<close>: the preparation, which also makes the faulty network a fresh copy of the golden
  one, the evaluation on the single-round or on the optimized path, and the update of
  every accumulator.
\<close>

definition run :: "('t, 'l, 'f, 'w) env \<Rightarrow> ('t \<Rightarrow> 't \<Rightarrow> 'f) option \<Rightarrow> ('t \<times> 't \<times> 'l) list
    \<Rightarrow> 'f campaign \<times> 'w \<Rightarrow> ('f campaign \<times> 'w) \<times> py_error option" where
  "run env error test_loader s =
     seq (\<lambda>s. case pre_run (float_zero env) (fst s) of (c, e) \<Rightarrow> ((c, golden_copy env), e))
         (seq (\<lambda>s. if length (rounds (fst s)) \<le> 1 then evaluate_single env error test_loader s
                    else evaluate_optimized env error test_loader s)
              (\<lambda>s. ((fst s\<lparr>performance := map (stats_update env) (performance (fst s))\<rparr>, snd s), None)))
         s"

text \<open>
  \<open>run_complete\<close>. \<open>range(n)\<close> is empty for \<open>n \<le> 0\<close>. The Rounds are cleared, then one Round
  is injected per coordinate of every layer, the last axis running fastest, and the
  Campaign is run. \<open>layer_names\<close> is an optional list of names (a string or a value that
  is not iterable is a \<open>TypeError\<close> the type of the argument excludes here).
\<close>

definition py_range :: "int \<Rightarrow> int list" where
  "py_range n = map int [0..<nat n]"

definition lay_names_inj :: "layers_info \<Rightarrow> string list option \<Rightarrow> string list" where
  "lay_names_inj li layer_names =
     (case layer_names of
        None \<Rightarrow> get_injectables li
      | Some names \<Rightarrow> if names = [] then get_injectables li
                      else filter (\<lambda>n. is_injectable li (Some n)) names)"

definition layer_positions :: "bool \<Rightarrow> int list \<Rightarrow> position list" where
  "layer_positions is_syn lay_shape =
     (let b = (if is_syn then 1 else 0) in
      concat (map (\<lambda>k. concat (map (\<lambda>l. concat (map (\<lambda>m. map (\<lambda>n.
                  Pos (if is_syn then Idx k else Wild) (Idx l) (Idx m) (Idx n))
                (py_range (lay_shape ! (2 + b))))
              (py_range (lay_shape ! (1 + b)))))
            (py_range (lay_shape ! (0 + b)))))
          (py_range (if is_syn then lay_shape ! 0 else 1))))"

definition inject_position :: "fault_model \<Rightarrow> string \<Rightarrow> position \<Rightarrow> 'f campaign \<times> rng
    \<Rightarrow> ('f campaign \<times> rng) \<times> py_error option" where
  "inject_position fm l p s =
     (case then_inject (fst s) [Fault fm (FaultSite l p)] (snd s) of
        ((c, fs, g), Inl e) \<Rightarrow> ((c, g), Some e)
      | ((c, fs, g), Inr kept) \<Rightarrow> ((c, g), None))"

definition inject_layer :: "fault_model \<Rightarrow> string \<Rightarrow> 'f campaign \<times> rng
    \<Rightarrow> ('f campaign \<times> rng) \<times> py_error option" where
  "inject_layer fm l s =
     (case get_shapes (layers_info (fst s)) (is_synaptic fm) l of
        None \<Rightarrow> (s, Some KeyError)
      | Some lay_shape \<Rightarrow>
          seq_all (inject_position fm l) (layer_positions (is_synaptic fm) lay_shape) s)"

definition inject_complete :: "fault_model \<Rightarrow> string list option \<Rightarrow> 'f campaign \<times> rng
    \<Rightarrow> ('f campaign \<times> rng) \<times> py_error option" where
  "inject_complete fm layer_names s =
     seq_all (inject_layer fm) (lay_names_inj (layers_info (fst s)) layer_names)
             (fst s\<lparr>rounds := []\<rparr>, snd s)"

definition run_complete :: "('t, 'l, 'f, 'w) env \<Rightarrow> ('t \<Rightarrow> 't \<Rightarrow> 'f) option \<Rightarrow> ('t \<times> 't \<times> 'l) list
    \<Rightarrow> fault_model \<Rightarrow> string list option \<Rightarrow> ('f campaign \<times> 'w) \<times> rng
    \<Rightarrow> (('f campaign \<times> 'w) \<times> rng) \<times> py_error option" where
  "run_complete env error test_loader fm layer_names s =
     (case s of ((c, w), g) \<Rightarrow>
        (case inject_complete fm layer_names (c, g) of
           ((c1, g1), Some e) \<Rightarrow> (((c1, w), g1), Some e)
         | ((c1, g1), None) \<Rightarrow>
             (case run env error test_loader (c1, w) of (s2, e) \<Rightarrow> ((s2, g1), e))))"

section \<open>What the claims say\<close>

subsection \<open>The sites validate is said to keep\<close>

text \<open>
  From the claim's words, not from the code: a site is valid when its layer is injectable
  and every concrete coordinate \<open>c\<close> on an axis of size \<open>dim\<close> satisfies
  \<open>-dim <= c < dim\<close>. A weight tensor has four axes; an output tensor has three, which
  coordinates 1 to 3 address. A wildcard is not a concrete coordinate and is not
  constrained. \<open>claimed_validate\<close> keeps the valid sites of every Fault and leaves out the
  Faults whose site set becomes empty.
\<close>

definition coord_ok :: "int \<Rightarrow> coord \<Rightarrow> bool" where
  "coord_ok dim c = (case c of Idx v \<Rightarrow> - dim \<le> v \<and> v < dim | _ \<Rightarrow> True)"

definition sized_coords :: "bool \<Rightarrow> position \<Rightarrow> coord list" where
  "sized_coords is_syn pos =
     (if is_syn then [pget pos 0, pget pos 1, pget pos 2, pget pos 3]
      else [pget pos 1, pget pos 2, pget pos 3])"

definition site_valid :: "layers_info \<Rightarrow> bool \<Rightarrow> fault_site \<Rightarrow> bool" where
  "site_valid li is_syn s =
     (is_injectable li (layer s) \<and>
      (case get_shapes li is_syn (the (layer s)) of
         None \<Rightarrow> False
       | Some shape \<Rightarrow>
           list_all (\<lambda>(c, dim). coord_ok dim c) (zip (sized_coords is_syn (position s)) shape)))"

definition keep_valid_sites :: "layers_info \<Rightarrow> fault \<Rightarrow> fault" where
  "keep_valid_sites li f = f\<lparr>sites := filter (site_valid li (is_synaptic (model f))) (sites f)\<rparr>"

definition claimed_validate :: "layers_info \<Rightarrow> fault list \<Rightarrow> fault list" where
  "claimed_validate li fs = filter fault_truthy (map (keep_valid_sites li) fs)"

text \<open>
  The Faults that \<open>validate\<close> skips at its first test, and the Faults all of whose
  compared coordinates are integers (the comparison of a wildcard raises).
\<close>

definition unsupported :: "string list \<Rightarrow> fault \<Rightarrow> bool" where
  "unsupported neuron f = (is_parametric (model f) \<and> param_name (model f) \<notin> set neuron)"

fun is_idx :: "coord \<Rightarrow> bool" where
  "is_idx (Idx c) = True"
| "is_idx Wild = False"
| "is_idx Unset = False"

definition comparable :: "layers_info \<Rightarrow> string list \<Rightarrow> fault \<Rightarrow> bool" where
  "comparable li neuron f =
     (if unsupported neuron f then True
      else list_all (\<lambda>s. if is_injectable li (layer s)
                          then list_all is_idx (sized_coords (is_synaptic (model f)) (position s))
                          else True) (sites f))"

subsection \<open>The Rounds run_complete is said to leave\<close>

text \<open>
  From the claim's words: one position per coordinate \<open>(l, m, n)\<close> of the shape
  \<open>(nc, nh, nw)\<close>, with a wildcard on axis 0, and one Round per position holding one Fault
  with that single site.
\<close>

definition neuron_positions :: "int \<Rightarrow> int \<Rightarrow> int \<Rightarrow> position list" where
  "neuron_positions nc nh nw =
     concat (map (\<lambda>l. concat (map (\<lambda>m. map (\<lambda>n. Pos Wild (Idx l) (Idx m) (Idx n))
       (py_range nw)) (py_range nh))) (py_range nc))"

definition single_site_round :: "fault_model \<Rightarrow> string \<Rightarrow> position \<Rightarrow> fault_round" where
  "single_site_round fm l p = [\<lparr>model = fm, sites = [FaultSite l p], sites_pending = []\<rparr>]"

subsection \<open>The statistics of the golden network\<close>

text \<open>
  From the claim's words: the statistics of evaluating the golden network directly on the
  batches, that is a fresh accumulator advanced, batch after batch, with the output of the
  whole golden network on the batch's input.
\<close>

definition golden_baseline :: "('t, 'l, 'f, 'w) env \<Rightarrow> layers_info \<Rightarrow> ('t \<Rightarrow> 't \<Rightarrow> 'f) option
    \<Rightarrow> ('t \<times> 't \<times> 'l) list \<Rightarrow> 'f stats" where
  "golden_baseline env li error test_loader =
     fold (\<lambda>batch st. advance_performance env st (golden env li (fst batch) None None)
                         (fst (snd batch)) (snd (snd batch)) error)
          test_loader (spikeStats (float_zero env))"

section \<open>Concrete inputs\<close>

text \<open>
  A three-layer network (a convolution, a dropout layer that is not injectable, a dense
  output layer), the parameter names of its neuron model, and fault models of the three
  targets.
\<close>

definition ex_li :: layers_info where
  "ex_li =
     [\<lparr>lay_name = ''SC1'', shape_syn = (2, 1, 3, 3), shape_neu = (2, 3, 3),
       injectable = True, is_dropout = False\<rparr>,
      \<lparr>lay_name = ''SDrop'', shape_syn = (0, 0, 0, 0), shape_neu = (2, 3, 3),
       injectable = False, is_dropout = True\<rparr>,
      \<lparr>lay_name = ''SF1'', shape_syn = (2, 2, 3, 3), shape_neu = (2, 1, 1),
       injectable = True, is_dropout = False\<rparr>]"

definition ex_neuron :: "string list" where
  "ex_neuron = [''theta'', ''tauSr'', ''tauRef'']"

definition dead_neuron :: fault_model where
  "dead_neuron = \<lparr>fm_name = ''DeadNeuron'', target = Z, param_name = []\<rparr>"

definition bogus_param :: fault_model where
  "bogus_param = \<lparr>fm_name = ''ParametricNeuron'', target = P, param_name = ''bogus''\<rparr>"

definition sat_synapse :: fault_model where
  "sat_synapse = \<lparr>fm_name = ''SaturatedSynapse'', target = W, param_name = []\<rparr>"

definition ex_fault :: fault where
  "ex_fault = Fault dead_neuron (FaultSite ''SC1'' (Pos Wild (Idx 1) (Idx 2) (Idx 0)))"

definition ex_bogus_fault :: fault where
  "ex_bogus_fault = Fault bogus_param (FaultSite ''SC1'' (Pos Wild (Idx 1) (Idx 2) (Idx 0)))"

definition ex_edge_fault :: fault where
  "ex_edge_fault =
     \<lparr>model = dead_neuron,
      sites = [FaultSite ''SC1'' (Pos Wild (Idx (- 1)) (Idx 0) (Idx 0)),
               FaultSite ''SC1'' (Pos Wild (Idx 2) (Idx 0) (Idx 0)),
               FaultSite ''SC1'' (Pos Wild (Idx (- 3)) (Idx 0) (Idx 0)),
               FaultSite ''SDrop'' (Pos Wild (Idx 0) (Idx 0) (Idx 0))],
      sites_pending = []\<rparr>"

definition ex_campaign :: "int campaign" where
  "ex_campaign = campaign_init ex_li ex_neuron"

definition no_draws :: rng where
  "no_draws = (\<lambda>_. 0)"

text \<open>
  A numeric backend for the examples: tensors, labels and floats are integers, the state
  of the faulty network counts its layer calls. A golden layer adds 1; a faulty layer
  does the same, except that layer SC1 gives 0 while the Round of index 1 is active.
  A registry with a layer of no neurons, and the batches of a small dataset.
\<close>

definition ex_env :: "(int, int, int, nat) env" where
  "ex_env =
     \<lparr>golden_layer = (\<lambda>n x. x + 1),
      faulty_layer = (\<lambda>r n w x. (if r = 1 \<and> n = ''SC1'' then 0 else x + 1, Suc w)),
      spike_psp = (\<lambda>x. 2 * x),
      torch_equal = (\<lambda>x y. x = y),
      perturb_at = (\<lambda>m s x. 0),
      num_correct = (\<lambda>out label. if out = label then 1 else 0),
      len_label = (\<lambda>label. 1),
      float_add = (\<lambda>a b. a + b),
      float_zero = 0,
      stats_update = (\<lambda>st. st),
      golden_copy = 0\<rparr>"

definition ex_loader :: "(int \<times> int \<times> int) list" where
  "ex_loader = [(- 1, 0, 4), (3, 0, 20)]"

definition ex_li_empty_layer :: layers_info where
  "ex_li_empty_layer =
     [\<lparr>lay_name = ''SF1'', shape_syn = (0, 2, 1, 1), shape_neu = (0, 1, 1),
       injectable = True, is_dropout = False\<rparr>]"

text \<open>
  A second Fault, a Campaign of two Rounds that hold the same two Faults, a Campaign whose
  first Round is empty and whose second Round holds one Fault, and a loss that counts the
  difference of the output and the target.
\<close>

definition ex_other_fault :: fault where
  "ex_other_fault = Fault dead_neuron (FaultSite ''SF1'' (Pos Wild (Idx 0) (Idx 0) (Idx 0)))"

definition ex_campaign_two :: "int campaign" where
  "ex_campaign_two = ex_campaign\<lparr>rounds := [[ex_fault, ex_other_fault], [ex_fault, ex_other_fault]]\<rparr>"

definition ex_campaign_baseline :: "int campaign" where
  "ex_campaign_baseline = ex_campaign\<lparr>rounds := [[], [ex_fault]]\<rparr>"

definition ex_error :: "(int \<Rightarrow> int \<Rightarrow> int) option" where
  "ex_error = Some (\<lambda>output tgt. output - tgt)"

text \<open>The Campaign with the empty Round as \<open>_pre_run\<close> leaves it.\<close>

definition ex_prepared :: "int campaign" where
  "ex_prepared = fst (pre_run (float_zero ex_env) ex_campaign_baseline)"

text \<open>
  Synaptic Faults: two Faults of different models at the same site, and one Fault with two
  sites that address the same weight, one of them from the end of its axis; the Campaigns
  that \<open>inject\<close> and \<open>_pre_run\<close> make of them. The weights of layer SC1 are 1 to 18; a
  saturated synapse is 100 and a dead one 0; the layer adds the weight at offset 5 to its
  input.
\<close>

definition dead_synapse :: fault_model where
  "dead_synapse = \<lparr>fm_name = ''DeadSynapse'', target = W, param_name = []\<rparr>"

definition ex_sat_fault :: fault where
  "ex_sat_fault = Fault sat_synapse (FaultSite ''SC1'' (Pos (Idx 0) (Idx 0) (Idx 1) (Idx 2)))"

definition ex_dead_fault :: fault where
  "ex_dead_fault = Fault dead_synapse (FaultSite ''SC1'' (Pos (Idx 0) (Idx 0) (Idx 1) (Idx 2)))"

definition ex_alias_fault :: fault where
  "ex_alias_fault =
     \<lparr>model = sat_synapse,
      sites = [FaultSite ''SC1'' (Pos (Idx 0) (Idx 0) (Idx 1) (Idx 2)),
               FaultSite ''SC1'' (Pos (Idx 0) (Idx 0) (Idx 1) (Idx (- 1)))],
      sites_pending = []\<rparr>"

definition ex_prepared_two_models :: "int campaign" where
  "ex_prepared_two_models =
     fst (pre_run 0 (fst (fst (inject ex_campaign [ex_sat_fault, ex_dead_fault] (- 1) no_draws))))"

definition ex_prepared_alias :: "int campaign" where
  "ex_prepared_alias = fst (pre_run 0 (fst (fst (inject ex_campaign [ex_alias_fault] (- 1) no_draws))))"

definition ex_prepared_one_site :: "int campaign" where
  "ex_prepared_one_site = fst (pre_run 0 (fst (fst (inject ex_campaign [ex_sat_fault] (- 1) no_draws))))"

definition ex_perturb :: "fault_model \<Rightarrow> int \<Rightarrow> fault_site \<Rightarrow> int" where
  "ex_perturb m v s = (if fm_name m = ''SaturatedSynapse'' then 100 else 0)"

definition ex_synapses :: "int synapses" where
  "ex_synapses = \<lparr>layer_weight = \<lparr>t_shape = (2, 1, 3, 3), t_data = map int [1..<19]\<rparr>,
                   saved = Map.empty\<rparr>"

definition ex_forward :: "int tensor \<Rightarrow> int \<Rightarrow> int" where
  "ex_forward w x = x + t_data w ! 5"

section \<open>Invariants of the proofs\<close>

text \<open>
  What holds of the handle registry and of the hooks of the faulty network all through
  \<open>_pre_run\<close>: every registered table has three rows of two slots, no two hooks belong to
  the same slot, and the slot of every hook is occupied.
\<close>


definition slots_shaped :: "'f campaign \<Rightarrow> bool" where
  "slots_shaped c = (\<forall>l tbl. handles c l = Some tbl \<longrightarrow> length tbl = 3 \<and> (\<forall>row \<in> set tbl. length row = 2))"

definition hooks_inv :: "'f campaign \<Rightarrow> bool" where
  "hooks_inv c =
     (slots_shaped c \<and> distinct (map (hook_slot \<circ> snd) (faulty_hooks c)) \<and>
      (\<forall>p \<in> set (faulty_hooks c). case hook_slot (snd p) of (l, t, k) \<Rightarrow> slot c l t k \<noteq> None))"

definition hooks_inv_at :: "string \<Rightarrow> 'f campaign \<Rightarrow> bool" where
  "hooks_inv_at l c = (hooks_inv c \<and> handles c l \<noteq> None)"

text \<open>The fields of the Campaign that the hook installation leaves alone.\<close>

definition kept_fields :: "'f campaign \<Rightarrow> 'f campaign \<Rightarrow> bool" where
  "kept_fields c c' =
     (layers_info c' = layers_info c \<and> slayer_neuron c' = slayer_neuron c \<and> rounds c' = rounds c
      \<and> orounds c' = orounds c \<and> rgroups c' = rgroups c \<and> performance c' = performance c
      \<and> r_idx c' = r_idx c)"

text \<open>
  What the evaluation of the Rounds leaves as \<open>_pre_run\<close> built it: the registry of layers,
  the Optimized Rounds, the groups and the number of accumulators.
\<close>

definition same_setup :: "'f campaign \<Rightarrow> 'f campaign \<times> 'w \<Rightarrow> bool" where
  "same_setup c s =
     (layers_info (fst s) = layers_info c \<and> orounds (fst s) = orounds c \<and> rgroups (fst s) = rgroups c
      \<and> length (performance (fst s)) = length (performance c))"

text \<open>
  What \<open>_pre_run\<close> has built after the first \<open>k\<close> Rounds \<open>rs\<close> of a Campaign over the layers
  \<open>li\<close>: one Optimized Round and one fresh accumulator per Round, and every Round index below
  \<open>k\<close> in exactly one group.
\<close>

definition prepared :: "'f \<Rightarrow> layers_info \<Rightarrow> fault_round list \<Rightarrow> nat \<Rightarrow> 'f campaign \<Rightarrow> bool" where
  "prepared z li rs k c =
     (layers_info c = li \<and> rounds c = rs \<and> length (orounds c) = k
      \<and> (\<forall>i<k. optimized li (rs ! i) = Inr (orounds c ! i))
      \<and> performance c = replicate k (spikeStats z)
      \<and> distinct (map fst (rgroups c))
      \<and> (\<forall>x. count_list (concat (map snd (rgroups c))) x = (if x < k then 1 else 0)))"

section \<open>Results\<close>

lemma eject_all_ok:
  "\<forall>r \<in> set rs. extract_many r fs \<noteq> [] \<Longrightarrow> eject_all rs fs = (map (\<lambda>r. extract_many r fs) rs, None)"
  by (induction rs) (simp_all add: Let_def)

lemma ex_faults_differ: "ex_fault \<noteq> ex_other_fault"
  by (simp add: ex_fault_def ex_other_fault_def Fault_def FaultSite_def)

text \<open>
  C8. \<open>eject\<close> with \<open>round_idx = 0\<close> does exactly what it does with no \<open>round_idx\<close>: the index
  is tested for truthiness, so 0 takes the eject-from-all-rounds branch. With Faults given,
  the result is that of the loop over all the Rounds: when no Round is emptied, the Faults
  are extracted from every Round, not from Round 0 only. With no Faults given, all the
  Rounds are cleared and one empty Round is reinstated, where ejecting Round 0 would remove
  that Round alone.
\<close>

theorem eject_round_idx_zero_is_none:
  "eject c faults (Some 0) = eject c faults None
   \<and> eject c faults (Some 0) =
       (case (if faults_truthy faults then eject_all (rounds c) (the faults) else ([], None)) of
          (rs, Some err) \<Rightarrow> (c\<lparr>rounds := rs\<rparr>, Some err)
        | (rs, None) \<Rightarrow> (c\<lparr>rounds := (if rs = [] then [FaultRound] else rs)\<rparr>, None))
   \<and> (faults_truthy faults \<longrightarrow> rounds c \<noteq> [] \<longrightarrow>
        (\<forall>r \<in> set (rounds c). extract_many r (the faults) \<noteq> []) \<longrightarrow>
        eject c faults (Some 0) = (c\<lparr>rounds := map (\<lambda>r. extract_many r (the faults)) (rounds c)\<rparr>, None))
   \<and> (\<not> faults_truthy faults \<longrightarrow> eject c faults (Some 0) = (c\<lparr>rounds := [FaultRound]\<rparr>, None))"
  by (simp add: eject_def idx_truthy_def eject_all_ok)

theorem eject_round_idx_zero_is_none_witness:
  "faults_truthy (Some [ex_fault]) \<and> rounds ex_campaign_two \<noteq> []
   \<and> list_all (\<lambda>r. extract_many r (the (Some [ex_fault])) \<noteq> []) (rounds ex_campaign_two)
   \<and> eject ex_campaign_two (Some [ex_fault]) (Some 0)
       = (ex_campaign_two\<lparr>rounds := [[ex_other_fault], [ex_other_fault]]\<rparr>, None)
   \<and> eject_round (rounds ex_campaign_two) (Some [ex_fault]) 0
       = ([[ex_other_fault], [ex_fault, ex_other_fault]], None)
   \<and> \<not> faults_truthy None
   \<and> eject ex_campaign_two None (Some 0) = (ex_campaign_two\<lparr>rounds := [[]]\<rparr>, None)
   \<and> eject_round (rounds ex_campaign_two) None 0 = ([[ex_fault, ex_other_fault]], None)"
proof -
  have r: "rounds ex_campaign_two = [[ex_fault, ex_other_fault], [ex_fault, ex_other_fault]]"
    by (simp add: ex_campaign_two_def)
  have t: "faults_truthy (Some [ex_fault])" "\<not> faults_truthy None" by (simp_all add: faults_truthy_def)
  have x: "extract_many [ex_fault, ex_other_fault] [ex_fault] = [ex_other_fault]"
    using ex_faults_differ by (auto simp: extract_many_def)
  from eject_round_idx_zero_is_none [of ex_campaign_two "Some [ex_fault]", THEN conjunct2, THEN conjunct2,
      THEN conjunct1] t r x
  have a: "eject ex_campaign_two (Some [ex_fault]) (Some 0)
       = (ex_campaign_two\<lparr>rounds := [[ex_other_fault], [ex_other_fault]]\<rparr>, None)"
    by simp
  from eject_round_idx_zero_is_none [of ex_campaign_two None, THEN conjunct2, THEN conjunct2,
      THEN conjunct2] t
  have b: "eject ex_campaign_two None (Some 0) = (ex_campaign_two\<lparr>rounds := [[]]\<rparr>, None)"
    by (simp add: FaultRound_def)
  have c: "eject_round (rounds ex_campaign_two) (Some [ex_fault]) 0
       = ([[ex_other_fault], [ex_fault, ex_other_fault]], None)"
    using t x by (simp add: r eject_round_def py_index_ok_def py_pos_def Let_def pop_at_def)
  have d: "eject_round (rounds ex_campaign_two) None 0 = ([[ex_fault, ex_other_fault]], None)"
    using t by (simp add: r eject_round_def py_index_ok_def py_pos_def Let_def pop_at_def)
  from t r x a b c d show ?thesis by simp
qed

subsection \<open>validate\<close>

lemma coord_in_range_idx: "is_idx c \<Longrightarrow> coord_in_range dim c = Inr (coord_ok dim c)"
  by (cases c) (simp_all add: coord_ok_def)

lemma length_tuple4: "length (tuple4 t) = 4"
  by (cases t) simp

lemma length_tuple3: "length (tuple3 t) = 3"
  by (cases t) simp

lemma get_shapes_length:
  "get_shapes li is_syn l = Some shape \<Longrightarrow> length shape = (if is_syn then 4 else 3)"
  by (auto simp: get_shapes_def length_tuple4 length_tuple3)

lemma injectable_has_shape:
  "is_injectable li (Some l) \<Longrightarrow> \<exists>shape. get_shapes li is_syn l = Some shape"
  by (auto simp: is_injectable_def get_shapes_def split: option.splits)

lemma validate_site_eq:
  assumes "is_injectable li (layer s) \<Longrightarrow> list_all is_idx (sized_coords is_syn (position s))"
  shows "validate_site li is_syn s = Inr (site_valid li is_syn s)"
proof (cases "is_injectable li (layer s)")
  case False
  then show ?thesis by (simp add: validate_site_def site_valid_def)
next
  case True
  then obtain l where l: "layer s = Some l" by (auto simp: is_injectable_def split: option.splits)
  with True obtain shape where sh: "get_shapes li is_syn l = Some shape"
    using injectable_has_shape by metis
  have len: "length shape = (if is_syn then 4 else 3)" using sh by (rule get_shapes_length)
  have idx: "list_all is_idx (sized_coords is_syn (position s))" using assms True by simp
  show ?thesis
  proof (cases is_syn)
    case True
    with len obtain a b c d where shape: "shape = [a, b, c, d]"
      by (auto simp: length_Suc_conv numeral_eq_Suc)
    with idx True \<open>is_injectable li (layer s)\<close> l sh show ?thesis
      by (auto simp: validate_site_def site_valid_def sized_coords_def bindE_def
          coord_in_range_idx Let_def)
  next
    case False
    with len obtain a b c where shape: "shape = [a, b, c]"
      by (auto simp: length_Suc_conv numeral_eq_Suc)
    with idx False \<open>is_injectable li (layer s)\<close> l sh show ?thesis
      by (auto simp: validate_site_def site_valid_def sized_coords_def bindE_def
          coord_in_range_idx Let_def)
  qed
qed

lemma to_remove_eq:
  assumes "list_all (\<lambda>s. if is_injectable li (layer s)
                          then list_all is_idx (sized_coords is_syn (position s)) else True) ss"
  shows "to_remove li is_syn ss = Inr (filter (\<lambda>s. \<not> site_valid li is_syn s) ss)"
  using assms
proof (induction ss)
  case Nil
  then show ?case by simp
next
  case (Cons s ss)
  then have "validate_site li is_syn s = Inr (site_valid li is_syn s)"
    by (intro validate_site_eq) simp
  with Cons show ?case by (simp add: bindE_def)
qed

lemma filter_not_removed: "filter (\<lambda>s. s \<notin> set (filter (\<lambda>s. \<not> Q s) ss)) ss = filter Q ss"
  by (induction ss) (auto intro: filter_cong)

lemma validate_eq:
  assumes "list_all (comparable li neuron) fs"
  shows "validate li neuron fs =
         (map (\<lambda>f. if unsupported neuron f then f else keep_valid_sites li f) fs,
          Inr (claimed_validate li (filter (\<lambda>f. \<not> unsupported neuron f) fs)))"
  using assms
proof (induction fs)
  case Nil
  then show ?case by (simp add: claimed_validate_def)
next
  case (Cons f fs)
  from Cons have IH: "validate li neuron fs =
         (map (\<lambda>f. if unsupported neuron f then f else keep_valid_sites li f) fs,
          Inr (claimed_validate li (filter (\<lambda>f. \<not> unsupported neuron f) fs)))"
    by simp
  show ?case
  proof (cases "unsupported neuron f")
    case True
    then have "is_parametric (model f) \<and> param_name (model f) \<notin> set neuron"
      by (simp add: unsupported_def)
    then have "validate li neuron (f # fs) = (case validate li neuron fs of (fs', r) \<Rightarrow> (f # fs', r))"
      by simp
    with True IH show ?thesis by simp
  next
    case False
    let ?syn = "is_synaptic (model f)"
    let ?rm = "filter (\<lambda>s. \<not> site_valid li ?syn s) (sites f)"
    from False have gate: "\<not> (is_parametric (model f) \<and> param_name (model f) \<notin> set neuron)"
      by (simp add: unsupported_def)
    from False Cons.prems have rm: "to_remove li ?syn (sites f) = Inr ?rm"
      by (intro to_remove_eq) (simp add: comparable_def)
    have kept: "f\<lparr>sites := filter (\<lambda>s. s \<notin> set ?rm) (sites f)\<rparr> = keep_valid_sites li f"
      unfolding keep_valid_sites_def by (simp only: filter_not_removed)
    have "validate li neuron (f # fs) =
        (keep_valid_sites li f # fst (validate li neuron fs),
         bindE (snd (validate li neuron fs))
           (\<lambda>vs. Inr (if fault_truthy (keep_valid_sites li f) then keep_valid_sites li f # vs else vs)))"
      unfolding validate.simps using gate rm kept
      by (simp only: if_False sum.case Let_def split_beta)
    with False IH show ?thesis
      by (simp add: bindE_def claimed_validate_def)
  qed
qed

text \<open>
  C4, as amended. \<open>validate\<close> first skips every parametric Fault whose parameter name the
  neuron model does not have: it is not returned and its sites stay as they are. In every
  other Fault, provided the coordinates it compares are integers, it keeps a site exactly
  when the layer is injectable and every concrete coordinate lies in \<open>[-dim, dim)\<close> of its
  axis, raises no error, and returns the Faults whose site set is not empty afterwards.
  On an axis of size \<open>N > 0\<close> the coordinate \<open>-1\<close> passes the check, \<open>N\<close> and \<open>-N-1\<close> fail
  it, none with an error.
\<close>

theorem validate_keeps_valid_sites:
  assumes "list_all (comparable li neuron) fs"
  shows "validate li neuron fs =
           (map (\<lambda>f. if unsupported neuron f then f else keep_valid_sites li f) fs,
            Inr (claimed_validate li (filter (\<lambda>f. \<not> unsupported neuron f) fs)))
         \<and> (0 < N \<longrightarrow> coord_in_range N (Idx (- 1)) = Inr True
                      \<and> coord_in_range N (Idx N) = Inr False
                      \<and> coord_in_range N (Idx (- N - 1)) = Inr False)"
  using validate_eq [OF assms] by simp

lemma ex_edge_comparable: "list_all (comparable ex_li ex_neuron) [ex_edge_fault, ex_bogus_fault]"
  by (simp add: comparable_def unsupported_def ex_edge_fault_def ex_bogus_fault_def Fault_def
      FaultSite_def is_defined_def layer_falsy_def dead_neuron_def bogus_param_def
      is_parametric_def is_synaptic_def ex_neuron_def sized_coords_def)

lemma ex_edge_claimed:
  "claimed_validate ex_li (filter (\<lambda>f. \<not> unsupported ex_neuron f) [ex_edge_fault, ex_bogus_fault])
     = [ex_edge_fault\<lparr>sites := [FaultSite ''SC1'' (Pos Wild (Idx (- 1)) (Idx 0) (Idx 0))]\<rparr>]"
  by (simp add: claimed_validate_def keep_valid_sites_def unsupported_def ex_edge_fault_def
      ex_bogus_fault_def Fault_def FaultSite_def is_defined_def layer_falsy_def dead_neuron_def
      bogus_param_def is_parametric_def is_synaptic_def ex_neuron_def sized_coords_def
      site_valid_def is_injectable_def lookup_def ex_li_def get_shapes_def coord_ok_def
      fault_truthy_def)

theorem validate_keeps_valid_sites_witness:
  "list_all (comparable ex_li ex_neuron) [ex_edge_fault, ex_bogus_fault]
   \<and> snd (validate ex_li ex_neuron [ex_edge_fault, ex_bogus_fault])
       = Inr [ex_edge_fault\<lparr>sites := [FaultSite ''SC1'' (Pos Wild (Idx (- 1)) (Idx 0) (Idx 0))]\<rparr>]
   \<and> (0::int) < 2 \<and> coord_in_range 2 (Idx (- 1)) = Inr True
   \<and> coord_in_range 2 (Idx 2) = Inr False \<and> coord_in_range 2 (Idx (- 2 - 1)) = Inr False"
proof -
  note w = validate_keeps_valid_sites [OF ex_edge_comparable, of 2]
  have pos: "(0::int) < 2" by simp
  from w have "validate ex_li ex_neuron [ex_edge_fault, ex_bogus_fault] =
      (map (\<lambda>f. if unsupported ex_neuron f then f else keep_valid_sites ex_li f)
           [ex_edge_fault, ex_bogus_fault],
       Inr (claimed_validate ex_li
              (filter (\<lambda>f. \<not> unsupported ex_neuron f) [ex_edge_fault, ex_bogus_fault])))"
    by (rule conjunct1)
  then have a: "snd (validate ex_li ex_neuron [ex_edge_fault, ex_bogus_fault])
       = Inr [ex_edge_fault\<lparr>sites := [FaultSite ''SC1'' (Pos Wild (Idx (- 1)) (Idx 0) (Idx 0))]\<rparr>]"
    by (simp only: snd_conv ex_edge_claimed)
  from w have "(0::int) < 2 \<longrightarrow> coord_in_range 2 (Idx (- 1)) = Inr True
      \<and> coord_in_range 2 (Idx 2) = Inr False \<and> coord_in_range 2 (Idx (- 2 - 1)) = Inr False"
    by (rule conjunct2)
  with pos have b: "coord_in_range 2 (Idx (- 1)) = Inr True
      \<and> coord_in_range 2 (Idx 2) = Inr False \<and> coord_in_range 2 (Idx (- 2 - 1)) = Inr False"
    by (rule rev_mp)
  from ex_edge_comparable a pos b show ?thesis by (intro conjI) (simp_all only: simp_thms)
qed

text \<open>
  The claim as stated fails on a parametric Fault whose parameter name is not supported:
  its site is on an injectable layer with every coordinate in range, and the Fault is not
  returned.
\<close>

theorem validate_drops_unsupported_parametric:
  "list_all (comparable ex_li ex_neuron) [ex_bogus_fault]
   \<and> claimed_validate ex_li [ex_bogus_fault] = [ex_bogus_fault]
   \<and> snd (validate ex_li ex_neuron [ex_bogus_fault]) = Inr []
   \<and> snd (validate ex_li ex_neuron [ex_bogus_fault]) \<noteq> Inr (claimed_validate ex_li [ex_bogus_fault])"
  by (simp add: claimed_validate_def keep_valid_sites_def comparable_def unsupported_def
      ex_bogus_fault_def Fault_def FaultSite_def is_defined_def layer_falsy_def
      bogus_param_def is_parametric_def is_synaptic_def ex_neuron_def sized_coords_def
      site_valid_def is_injectable_def lookup_def ex_li_def get_shapes_def coord_ok_def
      fault_truthy_def)

subsection \<open>inject\<close>

lemma coord_in_range_error: "coord_in_range dim c = Inl e \<Longrightarrow> e = TypeError"
  by (cases c) auto

lemma validate_site_error:
  "validate_site li is_syn s = Inl e \<Longrightarrow> e = TypeError \<or> e = KeyError"
  by (auto simp: validate_site_def bindE_def Let_def
      split: if_splits option.splits sum.splits dest: coord_in_range_error)

lemma to_remove_error:
  "to_remove li is_syn ss = Inl e \<Longrightarrow> e = TypeError \<or> e = KeyError"
  by (induction ss arbitrary: e)
     (auto simp: bindE_def split: sum.splits dest: validate_site_error)

lemma validate_error:
  "snd (validate li neuron fs) = Inl e \<Longrightarrow> e = TypeError \<or> e = KeyError"
proof (induction fs arbitrary: e)
  case Nil
  then show ?case by simp
next
  case (Cons f fs)
  then show ?case
    by (auto simp: bindE_def Let_def split: if_splits sum.splits prod.splits dest: to_remove_error)
qed

lemma randrange_error: "randrange n g = (Inl e, g') \<Longrightarrow> e = ValueError"
  by (auto simp: randrange_def split: if_splits prod.splits)

lemma fill_coord_error: "fill_coord c dim g = (Inl e, g') \<Longrightarrow> e = ValueError"
  by (auto simp: fill_coord_def split: if_splits prod.splits sum.splits dest: randrange_error)

lemma random_choice_error: "random_choice xs g = (Inl e, g') \<Longrightarrow> e = IndexError"
  by (auto simp: random_choice_def split: if_splits prod.splits)

lemma define_random_site_error:
  "define_random_site li is_syn s g = (s', g', Some e)
   \<Longrightarrow> e = IndexError \<or> e = KeyError \<or> e = ValueError"
  unfolding define_random_site_def Let_def
  by (auto split: if_splits prod.splits sum.splits option.splits
      dest: fill_coord_error random_choice_error)

lemma define_random_sites_error:
  "define_random_sites li is_syn ss g = (ss', g', Some e)
   \<Longrightarrow> e = IndexError \<or> e = KeyError \<or> e = ValueError"
  by (induction ss arbitrary: ss' g g' e)
     (auto split: prod.splits option.splits dest: define_random_site_error)

lemma define_random_error:
  "define_random li fs g = (fs', g', Some e)
   \<Longrightarrow> e = IndexError \<or> e = KeyError \<or> e = ValueError"
  by (induction fs arbitrary: fs' g g' e)
     (auto split: prod.splits option.splits dest: define_random_sites_error)

lemma inject_out_of_range:
  "\<not> py_index_ok (rounds c) round_idx \<Longrightarrow>
     inject c faults round_idx g = ((c, faults, g), Inl (AssertionError ''Invalid round index''))"
  by (simp add: inject_def py_index_ok_def)

lemma inject_no_assertion:
  assumes ok: "py_index_ok (rounds c) round_idx"
  shows "snd (inject c faults round_idx g) \<noteq> Inl (AssertionError msg)"
proof
  assume a: "snd (inject c faults round_idx g) = Inl (AssertionError msg)"
  obtain fs1 g1 e1 where dr: "define_random (layers_info c) faults g = (fs1, g1, e1)"
    by (metis prod_cases3)
  show False
  proof (cases e1)
    case (Some e)
    with a ok dr have "e = AssertionError msg" by (simp add: inject_def py_index_ok_def)
    with define_random_error [of "layers_info c" faults g fs1 g1 e] dr Some show False by simp
  next
    case None
    obtain fs2 r where v: "validate (layers_info c) (slayer_neuron c) fs1 = (fs2, r)"
      by (metis prod.exhaust)
    with a ok dr None have "r = Inl (AssertionError msg)"
      by (cases r) (simp_all add: inject_def py_index_ok_def Let_def)
    with validate_error [of "layers_info c" "slayer_neuron c" fs1 "AssertionError msg"] v
    show False by simp
  qed
qed

lemma inject_returns:
  assumes "py_index_ok (rounds c) round_idx"
    and "snd (inject c faults round_idx g) = Inr kept"
  shows "snd (validate (layers_info c) (slayer_neuron c)
               (fst (define_random (layers_info c) faults g))) = Inr kept"
    and "fst (fst (inject c faults round_idx g)) =
           c\<lparr>rounds := (rounds c)[py_pos (rounds c) round_idx :=
                 insert_many (rounds c ! py_pos (rounds c) round_idx) kept]\<rparr>"
  using assms
  by (auto simp: inject_def py_index_ok_def Let_def split: prod.splits option.splits sum.splits)

text \<open>
  C9. With \<open>round_idx\<close> outside \<open>[-len(rounds), len(rounds))\<close>, \<open>inject\<close> raises the
  assertion error on the round index with the Campaign, the passed Faults and the random
  stream untouched. With \<open>round_idx\<close> inside that range, negative or not, that error is
  not raised, and when \<open>inject\<close> returns, what it returns are the Faults that survive
  \<open>validate\<close> after \<open>define_random\<close>, and they have been inserted into the Round at
  \<open>round_idx\<close>, the rest of the Campaign being as before.
\<close>

theorem inject_round_idx_checked:
  "(\<not> py_index_ok (rounds c) round_idx \<longrightarrow>
      inject c faults round_idx g = ((c, faults, g), Inl (AssertionError ''Invalid round index'')))
   \<and> (py_index_ok (rounds c) round_idx \<longrightarrow>
        (\<forall>msg. snd (inject c faults round_idx g) \<noteq> Inl (AssertionError msg)) \<and>
        (\<forall>kept. snd (inject c faults round_idx g) = Inr kept \<longrightarrow>
           snd (validate (layers_info c) (slayer_neuron c)
                 (fst (define_random (layers_info c) faults g))) = Inr kept \<and>
           fst (fst (inject c faults round_idx g)) =
             c\<lparr>rounds := (rounds c)[py_pos (rounds c) round_idx :=
                   insert_many (rounds c ! py_pos (rounds c) round_idx) kept]\<rparr>))"
  using inject_out_of_range inject_no_assertion inject_returns by blast

lemma ex_fault_record:
  "ex_fault = \<lparr>model = dead_neuron,
               sites = [FaultSite ''SC1'' (Pos Wild (Idx 1) (Idx 2) (Idx 0))],
               sites_pending = []\<rparr>"
  by (simp add: ex_fault_def Fault_def FaultSite_def is_defined_def layer_falsy_def)

lemma ex_define_random: "define_random li [ex_fault] g = ([ex_fault], g, None)"
  by (simp add: ex_fault_record refresh_def)

lemma ex_validate: "validate ex_li ex_neuron [ex_fault] = ([ex_fault], Inr [ex_fault])"
  by (simp add: ex_fault_record dead_neuron_def is_parametric_def is_synaptic_def
      validate_site_def FaultSite_def is_injectable_def lookup_def ex_li_def get_shapes_def
      bindE_def fault_truthy_def Let_def)

lemma ex_campaign_rounds: "rounds ex_campaign = [[]]"
  by (simp add: ex_campaign_def campaign_init_def FaultRound_def)

lemma ex_campaign_fields:
  "layers_info ex_campaign = ex_li" "slayer_neuron ex_campaign = ex_neuron"
  by (simp_all add: ex_campaign_def campaign_init_def)

lemma ex_inject_last:
  "inject ex_campaign [ex_fault] (- 1) no_draws
     = ((ex_campaign\<lparr>rounds := [[ex_fault]]\<rparr>, [ex_fault], no_draws), Inr [ex_fault])"
  by (simp add: inject_def ex_campaign_rounds ex_campaign_fields ex_define_random ex_validate
      py_pos_def insert_many_def del: define_random.simps validate.simps)

theorem inject_round_idx_checked_witness:
  "\<not> py_index_ok (rounds ex_campaign) 1
   \<and> inject ex_campaign [ex_fault] 1 no_draws
       = ((ex_campaign, [ex_fault], no_draws), Inl (AssertionError ''Invalid round index''))
   \<and> py_index_ok (rounds ex_campaign) (- 1)
   \<and> snd (inject ex_campaign [ex_fault] (- 1) no_draws) = Inr [ex_fault]
   \<and> fst (fst (inject ex_campaign [ex_fault] (- 1) no_draws))
       = ex_campaign\<lparr>rounds := [[ex_fault]]\<rparr>"
proof -
  have out: "\<not> py_index_ok (rounds ex_campaign) 1"
    by (simp add: py_index_ok_def ex_campaign_rounds)
  have inside: "py_index_ok (rounds ex_campaign) (- 1)"
    by (simp add: py_index_ok_def ex_campaign_rounds)
  have ret: "snd (inject ex_campaign [ex_fault] (- 1) no_draws) = Inr [ex_fault]"
    by (simp add: ex_inject_last)
  from inject_round_idx_checked [of ex_campaign 1 "[ex_fault]" no_draws] out
  have a: "inject ex_campaign [ex_fault] 1 no_draws
       = ((ex_campaign, [ex_fault], no_draws), Inl (AssertionError ''Invalid round index''))"
    by blast
  from inject_round_idx_checked [of ex_campaign "- 1" "[ex_fault]" no_draws] inside ret
  have "fst (fst (inject ex_campaign [ex_fault] (- 1) no_draws)) =
      ex_campaign\<lparr>rounds := (rounds ex_campaign)[py_pos (rounds ex_campaign) (- 1) :=
         insert_many (rounds ex_campaign ! py_pos (rounds ex_campaign) (- 1)) [ex_fault]]\<rparr>"
    by blast
  then have b: "fst (fst (inject ex_campaign [ex_fault] (- 1) no_draws))
       = ex_campaign\<lparr>rounds := [[ex_fault]]\<rparr>"
    by (simp add: ex_campaign_rounds py_pos_def insert_many_def)
  from out a inside ret b show ?thesis by (intro conjI)
qed

text \<open>
  C10. A newly constructed Campaign has exactly one Round, and it is empty. A first
  \<open>inject\<close> with the default \<open>round_idx = -1\<close> does not fail the assertion and, when it
  returns, has put its Faults into that one Round: there is still one Round, no longer the
  empty baseline. \<open>then_inject\<close> keeps the baseline Round empty and fills a second one.
\<close>

theorem first_inject_fills_baseline_round:
  "rounds (campaign_init li neuron :: 'f campaign) = [[]]
   \<and> (\<forall>msg. snd (inject (campaign_init li neuron :: 'f campaign) faults (- 1) g)
          \<noteq> Inl (AssertionError msg))
   \<and> (\<forall>kept. snd (inject (campaign_init li neuron :: 'f campaign) faults (- 1) g) = Inr kept \<longrightarrow>
         rounds (fst (fst (inject (campaign_init li neuron :: 'f campaign) faults (- 1) g)))
           = [insert_many [] kept])
   \<and> (\<forall>kept. snd (then_inject (campaign_init li neuron :: 'f campaign) faults g) = Inr kept \<longrightarrow>
         rounds (fst (fst (then_inject (campaign_init li neuron :: 'f campaign) faults g)))
           = [[], insert_many [] kept])"
proof (intro conjI allI impI)
  let ?c = "campaign_init li neuron :: 'f campaign"
  show r0: "rounds ?c = [[]]" by (simp add: campaign_init_def FaultRound_def)
  have ok: "py_index_ok (rounds ?c) (- 1)" by (simp add: r0 py_index_ok_def)
  show "snd (inject ?c faults (- 1) g) \<noteq> Inl (AssertionError msg)" for msg
    using ok by (rule inject_no_assertion)
  show "rounds (fst (fst (inject ?c faults (- 1) g))) = [insert_many [] kept]"
    if "snd (inject ?c faults (- 1) g) = Inr kept" for kept
    using inject_returns(2) [OF ok that] by (simp add: r0 py_pos_def)
  let ?c2 = "?c\<lparr>rounds := rounds ?c @ [FaultRound]\<rparr>"
  have r2: "rounds ?c2 = [[], []]" by (simp add: r0 FaultRound_def)
  have ok2: "py_index_ok (rounds ?c2) (- 1)" by (simp add: r2 py_index_ok_def)
  show "rounds (fst (fst (then_inject ?c faults g))) = [[], insert_many [] kept]"
    if "snd (then_inject ?c faults g) = Inr kept" for kept
    using inject_returns(2) [OF ok2 that [unfolded then_inject_def]]
    by (simp add: then_inject_def r2 py_pos_def)
qed

theorem first_inject_fills_baseline_round_witness:
  "rounds ex_campaign = [[]]
   \<and> snd (inject ex_campaign [ex_fault] (- 1) no_draws) = Inr [ex_fault]
   \<and> rounds (fst (fst (inject ex_campaign [ex_fault] (- 1) no_draws))) = [[ex_fault]]"
proof -
  note w = first_inject_fills_baseline_round [of ex_li ex_neuron "[ex_fault]" no_draws,
      where ?'f = int, folded ex_campaign_def]
  have ret: "snd (inject ex_campaign [ex_fault] (- 1) no_draws) = Inr [ex_fault]"
    by (simp add: ex_inject_last)
  from w have a: "rounds ex_campaign = [[]]" by (rule conjunct1)
  from w ret have "rounds (fst (fst (inject ex_campaign [ex_fault] (- 1) no_draws)))
      = [insert_many [] [ex_fault]]"
    by blast
  then have b: "rounds (fst (fst (inject ex_campaign [ex_fault] (- 1) no_draws))) = [[ex_fault]]"
    by (simp add: insert_many_def)
  from a ret b show ?thesis by (intro conjI)
qed

subsection \<open>eject\<close>

lemma eject_all_error:
  "snd (eject_all rs fs) = (if list_ex (\<lambda>r. extract_many r fs = []) rs then Some TypeError else None)"
  by (induction rs) (auto simp: Let_def split: prod.splits)

text \<open>
  C7. The claim describes what \<open>eject\<close> is meant to do, and the code does not do it: with
  Faults given and no \<open>round_idx\<close>, the first Round that is empty after the extraction is
  passed to \<open>list.pop\<close> in place of its index, which raises \<open>TypeError\<close>. After a first
  \<open>inject\<close> of one Fault into a new Campaign, ejecting that Fault raises, and the emptied
  Round is still there.
\<close>

theorem eject_emptied_round_raises:
  "snd (eject (fst (fst (inject ex_campaign [ex_fault] (- 1) no_draws))) (Some [ex_fault]) None)
     = Some TypeError
   \<and> rounds (fst (eject (fst (fst (inject ex_campaign [ex_fault] (- 1) no_draws)))
                (Some [ex_fault]) None)) = [[]]"
  by (simp add: ex_inject_last eject_def idx_truthy_def faults_truthy_def extract_many_def)

subsection \<open>_pre_run and _perturb_net\<close>

lemma seq_fst:
  assumes "\<And>s. Q s \<Longrightarrow> Q (fst (a s))" "\<And>s. Q s \<Longrightarrow> Q (fst (b s))" "Q s"
  shows "Q (fst (seq a b s))"
proof (cases "a s")
  case (Pair s' e)
  with assms(1) [OF assms(3)] have "Q s'" by simp
  with Pair assms(2) show ?thesis by (cases e) (simp_all add: seq_def)
qed

lemma seq_all_fst:
  assumes "\<And>x s. Q s \<Longrightarrow> Q (fst (f x s))" "Q s"
  shows "Q (fst (seq_all f xs s))"
  using assms(2)
proof (induction xs arbitrary: s)
  case Nil
  then show ?case by simp
next
  case (Cons x xs)
  show ?case unfolding seq_all.simps
    by (rule seq_fst) (use Cons assms(1) in auto)
qed

lemma empty_slots_shape: "length empty_slots = 3 \<and> (\<forall>row \<in> set empty_slots. length row = 2)"
  by (simp add: empty_slots_def)

lemma empty_slots_none: "t < 3 \<Longrightarrow> k < 2 \<Longrightarrow> empty_slots ! t ! k = None"
  by (simp add: empty_slots_def)

lemma setdefault_inv: "hooks_inv c \<Longrightarrow> hooks_inv (setdefault_slots l c) \<and> handles (setdefault_slots l c) l \<noteq> None"
  unfolding hooks_inv_def slots_shaped_def setdefault_slots_def
  by (auto simp: slot_def empty_slots_shape split: option.splits prod.splits)

lemma slot_set_slot:
  assumes "slots_shaped c" "handles c l \<noteq> None" "t < 3" "k < 2"
  shows "slot (set_slot l t k h c) l' t' k' =
         (if l' = l \<and> t' = t \<and> k' = k then Some h else slot c l' t' k')"
proof -
  from assms obtain tbl where tbl: "handles c l = Some tbl" by auto
  with assms(1) have len: "length tbl = 3" and rows: "\<forall>row \<in> set tbl. length row = 2"
    by (auto simp: slots_shaped_def)
  from len assms(3) have "tbl ! t \<in> set tbl" by simp
  with rows have len2: "length (tbl ! t) = 2" by blast
  show ?thesis using tbl len len2 assms(3,4)
    by (auto simp: slot_def set_slot_def nth_list_update)
qed

lemma shaped_set_slot:
  assumes "slots_shaped c"
  shows "slots_shaped (set_slot l t k h c)"
proof (cases "handles c l")
  case None
  with assms show ?thesis by (simp add: set_slot_def)
next
  case (Some tbl)
  with assms have len: "length tbl = 3" and rows: "\<forall>row \<in> set tbl. length row = 2"
    by (auto simp: slots_shaped_def)
  let ?tbl' = "tbl[t := (tbl ! t)[k := Some h]]"
  have "\<forall>row \<in> set ?tbl'. length row = 2"
  proof
    fix row assume "row \<in> set ?tbl'"
    then have "row = (tbl ! t)[k := Some h] \<and> t < length tbl \<or> row \<in> set tbl"
      by (cases "t < length tbl") (auto simp: list_update_beyond dest: set_update_subset_insert [THEN subsetD])
    with rows show "length row = 2" by (auto dest: nth_mem)
  qed
  with len assms Some show ?thesis
    by (auto simp: slots_shaped_def set_slot_def)
qed

lemma set_slot_fields:
  "faulty_hooks (set_slot l t k h c) = faulty_hooks c"
  "handles (set_slot l t k h c) l = None \<longleftrightarrow> handles c l = None"
  by (auto simp: set_slot_def split: option.splits)

lemma register_fields:
  "register host h c = (n, c') \<Longrightarrow>
     faulty_hooks c' = faulty_hooks c @ [(host, h)] \<and> handles c' = handles c \<and> n = length (faulty_hooks c)"
  by (auto simp: register_def)

lemma slot_cong_handles: "handles c' = handles c \<Longrightarrow> slot c' = slot c"
  by (simp add: slot_def fun_eq_iff)

lemma shaped_cong_handles: "handles c' = handles c \<Longrightarrow> slots_shaped c' = slots_shaped c"
  by (simp add: slots_shaped_def)

text \<open>Registering a hook whose slot is empty and storing its handle keeps the invariant.\<close>

lemma register_set_inv:
  assumes inv: "hooks_inv c" and tbl: "handles c l \<noteq> None"
    and free: "slot c l t k = None" and hs: "hook_slot h = (l, t, k)" and tk: "t < 3" "k < 2"
    and reg: "register host h c = (n, c')"
  shows "hooks_inv (set_slot l t k n c') \<and> handles (set_slot l t k n c') l \<noteq> None"
proof -
  from register_fields [OF reg] have f: "faulty_hooks c' = faulty_hooks c @ [(host, h)]"
    and hd: "handles c' = handles c" by auto
  have sh: "slots_shaped c'" using inv shaped_cong_handles [OF hd] by (simp add: hooks_inv_def)
  have tbl': "handles c' l \<noteq> None" using tbl hd by simp
  have sl: "slot (set_slot l t k n c') l' t' k' =
         (if l' = l \<and> t' = t \<and> k' = k then Some n else slot c l' t' k')" for l' t' k'
    using slot_set_slot [OF sh tbl' tk] slot_cong_handles [OF hd] by simp
  have notin: "(l, t, k) \<notin> set (map (hook_slot \<circ> snd) (faulty_hooks c))"
  proof
    assume "(l, t, k) \<in> set (map (hook_slot \<circ> snd) (faulty_hooks c))"
    then obtain p where "p \<in> set (faulty_hooks c)" "hook_slot (snd p) = (l, t, k)" by auto
    with inv have "slot c l t k \<noteq> None" by (fastforce simp: hooks_inv_def)
    with free show False by simp
  qed
  have d: "distinct (map (hook_slot \<circ> snd) (faulty_hooks (set_slot l t k n c')))"
    using inv notin by (simp add: set_slot_fields f hs hooks_inv_def)
  have filled: "\<forall>p \<in> set (faulty_hooks (set_slot l t k n c')).
      case hook_slot (snd p) of (l', t', k') \<Rightarrow> slot (set_slot l t k n c') l' t' k' \<noteq> None"
    using inv by (auto simp: set_slot_fields f hs hooks_inv_def sl split: prod.splits)
  have "handles (set_slot l t k n c') l \<noteq> None"
    using tbl' by (simp add: set_slot_fields del: not_None_eq)
  with d filled shaped_set_slot [OF sh] show ?thesis
    by (simp only: hooks_inv_def simp_thms)
qed

lemma perturb_neuronal_inv:
  "hooks_inv_at l c \<Longrightarrow> hooks_inv_at l (fst (perturb_neuronal r l c))"
  unfolding perturb_neuronal_def hooks_inv_at_def
  by (auto split: option.splits prod.splits
      dest!: register_set_inv [where l = l and t = "get_index Z" and k = 0 and h = "NeuronPre l", rotated -1])

lemma flayers_inv: "hooks_inv_at l (c\<lparr>flayers := x\<rparr>) = hooks_inv_at l c"
  by (simp add: hooks_inv_at_def hooks_inv_def slots_shaped_def slot_def)

lemma slot_flayers: "slot (c\<lparr>flayers := x\<rparr>) = slot c"
  by (simp add: slot_def fun_eq_iff)

lemma perturb_parametric_inv:
  assumes "hooks_inv_at l c"
  shows "hooks_inv_at l (fst (perturb_parametric r l c))"
proof (cases "any_parametric r l")
  case False
  with assms show ?thesis by (simp add: perturb_parametric_def)
next
  case True
  let ?c1 = "c\<lparr>flayers := flayers c @ map model (search_parametric r l)\<rparr>"
  have c1: "hooks_inv_at l ?c1" using assms by (simp only: flayers_inv)
  show ?thesis
  proof (cases "slot ?c1 l (get_index P) 1 = None")
    case False
    with True c1 show ?thesis by (auto simp: perturb_parametric_def Let_def)
  next
    case free: True
    obtain n c' where reg: "register l (ParametricPost l) ?c1 = (n, c')" by (cases "register l (ParametricPost l) ?c1")
    from c1 have "hooks_inv ?c1" "handles ?c1 l \<noteq> None" by (simp_all add: hooks_inv_at_def)
    from register_set_inv [OF this free _ _ _ reg]
    have "hooks_inv_at l (set_slot l (get_index P) 1 n c')" by (simp add: hooks_inv_at_def)
    with True free reg show ?thesis by (simp add: perturb_parametric_def Let_def)
  qed
qed

lemma perturb_synaptic_inv:
  assumes "hooks_inv_at l c"
  shows "hooks_inv_at l (fst (perturb_synaptic r l c))"
proof (cases "any_synaptic r l \<and> slot c l (get_index W) 0 = None \<and> slot c l (get_index W) 1 = None")
  case False
  with assms show ?thesis by (auto simp: perturb_synaptic_def)
next
  case True
  obtain h0 c0 where r0: "register l (SynapticPre l) c = (h0, c0)" by (cases "register l (SynapticPre l) c")
  let ?c0' = "set_slot l (get_index W) 0 h0 c0"
  obtain h1 c1 where r1: "register l (SynapticPost l) ?c0' = (h1, c1)" by (cases "register l (SynapticPost l) ?c0'")
  from assms have i: "hooks_inv c" "handles c l \<noteq> None" by (simp_all add: hooks_inv_at_def)
  from True have f0: "slot c l (get_index W) 0 = None" by simp
  from register_set_inv [OF i f0 _ _ _ r0]
  have i0: "hooks_inv ?c0'" "handles ?c0' l \<noteq> None" by simp_all
  from register_fields [OF r0] have hd: "handles c0 = handles c" by simp
  from i have sh: "slots_shaped c0" using shaped_cong_handles [OF hd] by (simp add: hooks_inv_def)
  from i hd have tb: "handles c0 l \<noteq> None" by simp
  have f1: "slot ?c0' l (get_index W) 1 = None"
    using slot_set_slot [OF sh tb, of "get_index W" 0 h0 l "get_index W" 1] True
      slot_cong_handles [OF hd] by simp
  from register_set_inv [OF i0 f1 _ _ _ r1]
  have "hooks_inv_at l (set_slot l (get_index W) 1 h1 c1)" by (simp add: hooks_inv_at_def)
  with True r0 r1 show ?thesis by (simp add: perturb_synaptic_def)
qed

lemma perturb_layer_inv:
  assumes "hooks_inv c"
  shows "hooks_inv (fst (perturb_layer r l c))"
proof -
  from setdefault_inv [OF assms] have s: "hooks_inv_at l (setdefault_slots l c)"
    by (simp add: hooks_inv_at_def)
  have "hooks_inv_at l (fst (perturb_layer r l c))"
    unfolding perturb_layer_def
  proof (rule seq_fst [where Q = "hooks_inv_at l"])
    fix s assume q: "hooks_inv_at l s"
    show "hooks_inv_at l (fst (if any_neuronal r l then seq (perturb_neuronal r l) (perturb_parametric r l) s else (s, None)))"
    proof (cases "any_neuronal r l")
      case True
      have "hooks_inv_at l (fst (seq (perturb_neuronal r l) (perturb_parametric r l) s))"
        by (rule seq_fst [where Q = "hooks_inv_at l"])
           (auto intro: perturb_neuronal_inv perturb_parametric_inv q)
      with True show ?thesis by simp
    next
      case False
      with q show ?thesis by simp
    qed
  next
    fix s assume "hooks_inv_at l s"
    then show "hooks_inv_at l (fst (perturb_synaptic r l s))" by (rule perturb_synaptic_inv)
  next
    show "hooks_inv_at l (setdefault_slots l c)" by (rule s)
  qed
  then show ?thesis by (simp add: hooks_inv_at_def)
qed

lemma perturb_net_inv: "hooks_inv c \<Longrightarrow> hooks_inv (fst (perturb_net orr c))"
  unfolding perturb_net_def by (rule seq_all_fst) (auto intro: perturb_layer_inv)

lemma hooks_inv_other_fields:
  "hooks_inv (c\<lparr>orounds := a\<rparr>) = hooks_inv c"
  "hooks_inv (c\<lparr>performance := p\<rparr>) = hooks_inv c"
  "hooks_inv (c\<lparr>rgroups := b\<rparr>) = hooks_inv c"
  by (simp_all add: hooks_inv_def slots_shaped_def slot_def)

lemma pre_run_round_inv: "hooks_inv c \<Longrightarrow> hooks_inv (fst (pre_run_round z p c))"
proof -
  assume inv: "hooks_inv c"
  obtain r round where p: "p = (r, round)" by (cases p)
  show ?thesis
  proof (cases "optimized (layers_info c) round")
    case (Inl e)
    with p inv show ?thesis by (simp add: pre_run_round_def)
  next
    case (Inr orr)
    have "hooks_inv (fst (seq (perturb_net orr)
                 (\<lambda>c. (c\<lparr>performance := performance c @ [spikeStats z]\<rparr>, None))
                 (c\<lparr>orounds := orounds c @ [orr],
                    rgroups := rgroups_add (rgroups c) (early_name orr) r\<rparr>)))"
      by (rule seq_fst [where Q = hooks_inv])
         (auto intro: perturb_net_inv simp: hooks_inv_other_fields inv)
    with p Inr show ?thesis by (simp add: pre_run_round_def)
  qed
qed

lemma sort_rgroups_inv: "hooks_inv c \<Longrightarrow> hooks_inv (fst (sort_rgroups c))"
  by (simp add: sort_rgroups_def hooks_inv_other_fields)

lemma pre_run_inv: "hooks_inv (fst (pre_run z c))"
proof -
  let ?c0 = "c\<lparr>rounds := (if rounds c = [] then [FaultRound] else rounds c),
                 r_idx := 0, orounds := [], rgroups := [], handles := Map.empty,
                 performance := [], faulty_hooks := []\<rparr>"
  have c0: "hooks_inv ?c0" by (simp add: hooks_inv_def slots_shaped_def)
  have "hooks_inv (fst (seq (seq_all (pre_run_round z) (enumerate 0 (rounds ?c0))) sort_rgroups ?c0))"
  proof (rule seq_fst [where Q = hooks_inv])
    fix s :: "'a campaign" assume "hooks_inv s"
    then show "hooks_inv (fst (seq_all (pre_run_round z) (enumerate 0 (rounds ?c0)) s))"
      by (rule seq_all_fst [where Q = hooks_inv, rotated]) (rule pre_run_round_inv)
  next
    fix s :: "'a campaign" assume "hooks_inv s"
    then show "hooks_inv (fst (sort_rgroups s))" by (rule sort_rgroups_inv)
  next
    show "hooks_inv ?c0" by (rule c0)
  qed
  then show ?thesis by (simp add: pre_run_def Let_def)
qed

lemma distinct_map_filter_le_one:
  "distinct (map f xs) \<Longrightarrow> length (filter (\<lambda>x. f x = y) xs) \<le> 1"
  by (induction xs) (auto simp: filter_empty_conv image_iff)

text \<open>
  C6. After the hook installation of \<open>_pre_run\<close> over all the Rounds of the Campaign,
  whatever they are and however many of them target the same layer and target, the faulty
  network holds at most one hook for every slot (layer name, target, pre or post) of the
  handle registry: a slot that holds a handle is never assigned again.
\<close>

theorem hooks_registered_at_most_once:
  "length (registered_for (fst (pre_run z c)) l t k) \<le> 1"
proof -
  from pre_run_inv [of z c] have "distinct (map (hook_slot \<circ> snd) (faulty_hooks (fst (pre_run z c))))"
    by (simp add: hooks_inv_def)
  from distinct_map_filter_le_one [OF this, of "(l, t, k)"]
  show ?thesis by (simp add: registered_for_def case_prod_unfold)
qed


subsection \<open>run and run_complete\<close>

lemma seq_all_ok:
  assumes "\<And>x s. x \<in> set xs \<Longrightarrow> Q s \<Longrightarrow> f x s = (h x s, None) \<and> Q (h x s)" "Q s"
  shows "seq_all f xs s = (fold h xs s, None) \<and> Q (fold h xs s)"
  using assms
proof (induction xs arbitrary: s)
  case Nil
  then show ?case by simp
next
  case (Cons x xs)
  from Cons.prems(1) [of x s] Cons.prems(2) have fx: "f x s = (h x s, None)" and q: "Q (h x s)"
    by simp_all
  have "seq_all f xs (h x s) = (fold h xs (h x s), None) \<and> Q (fold h xs (h x s))"
  proof (rule Cons.IH)
    show "Q (h x s)" by (rule q)
  next
    fix y t assume "y \<in> set xs" "Q t"
    then show "f y t = (h y t, None) \<and> Q (h y t)" using Cons.prems(1) [of y t] by simp
  qed
  with fx show ?case by (simp add: seq_def)
qed

lemma in_py_range: "x \<in> set (py_range k) \<longleftrightarrow> 0 \<le> x \<and> x < k"
proof
  assume "x \<in> set (py_range k)"
  then show "0 \<le> x \<and> x < k" by (auto simp: py_range_def)
next
  assume a: "0 \<le> x \<and> x < k"
  then have "nat x \<in> set [0..<nat k]" "int (nat x) = x" by auto
  then show "x \<in> set (py_range k)" unfolding py_range_def set_map by (metis imageI)
qed

lemma neuron_positions_product:
  "neuron_positions nc nh nw =
     map (\<lambda>(l, m, n). Pos Wild (Idx l) (Idx m) (Idx n))
         (List.product (py_range nc) (List.product (py_range nh) (py_range nw)))"
proof -
  have inner: "concat (map (\<lambda>m. map (\<lambda>n. F m n) ns) ms)
      = map (\<lambda>(m, n). F m n) (List.product ms ns)" for F :: "int \<Rightarrow> int \<Rightarrow> position" and ms ns
    by (induction ms) (simp_all add: comp_def)
  have outer: "concat (map (\<lambda>l. map (\<lambda>q. G l q) qs) ls)
      = map (\<lambda>(l, q). G l q) (List.product ls qs)" for G :: "int \<Rightarrow> int \<times> int \<Rightarrow> position" and ls qs
    by (induction ls) (simp_all add: comp_def)
  show ?thesis
    unfolding neuron_positions_def inner
    using outer [of "\<lambda>l (m, n). Pos Wild (Idx l) (Idx m) (Idx n)"]
    by (simp add: case_prod_unfold)
qed

lemma in_neuron_positions:
  "p \<in> set (neuron_positions nc nh nw) \<longleftrightarrow>
     (\<exists>l m n. p = Pos Wild (Idx l) (Idx m) (Idx n) \<and> 0 \<le> l \<and> l < nc \<and> 0 \<le> m \<and> m < nh \<and> 0 \<le> n \<and> n < nw)"
  unfolding neuron_positions_product
  by (auto simp: in_py_range image_iff)

lemma distinct_py_range: "distinct (py_range k)"
  by (simp add: py_range_def distinct_map inj_on_def)

lemma length_py_range: "length (py_range k) = nat k"
  by (simp add: py_range_def)

lemma distinct_neuron_positions: "distinct (neuron_positions nc nh nw)"
  unfolding neuron_positions_product
  by (auto simp: distinct_map distinct_product distinct_py_range inj_on_def)

lemma length_neuron_positions:
  "length (neuron_positions nc nh nw) = nat nc * nat nh * nat nw"
  unfolding neuron_positions_product
  by (simp add: length_py_range)

lemma layer_positions_neuronal:
  "layer_positions False [nc, nh, nw] = neuron_positions nc nh nw"
  by (simp add: layer_positions_def neuron_positions_def py_range_def)

lemma refresh_no_pending: "sites_pending f = [] \<Longrightarrow> refresh f = f"
  by (simp add: refresh_def)

lemma then_inject_valid:
  assumes c: "layers_info c = li" "slayer_neuron c = neuron"
    and lay: "is_injectable li (Some lay)" "get_shapes li False lay = Some [nc, nh, nw]" "lay \<noteq> []"
    and fm: "\<not> is_synaptic fm" "\<not> (is_parametric fm \<and> param_name fm \<notin> set neuron)"
    and p: "p \<in> set (neuron_positions nc nh nw)"
  shows "then_inject c [Fault fm (FaultSite lay p)] g =
           ((c\<lparr>rounds := rounds c @ [single_site_round fm lay p]\<rparr>,
             single_site_round fm lay p, g),
            Inr (single_site_round fm lay p))"
proof -
  from p obtain l m n where pp: "p = Pos Wild (Idx l) (Idx m) (Idx n)"
    and rg: "0 \<le> l" "l < nc" "0 \<le> m" "m < nh" "0 \<le> n" "n < nw"
    by (auto simp: in_neuron_positions)
  let ?s = "FaultSite lay p"
  let ?f = "\<lparr>model = fm, sites = [?s], sites_pending = []\<rparr>"
  let ?c1 = "c\<lparr>rounds := rounds c @ [FaultRound]\<rparr>"
  have def: "is_defined ?s" using lay(3) by (simp add: is_defined_def layer_falsy_def FaultSite_def pp)
  then have F: "Fault fm ?s = ?f" by (simp add: Fault_def)
  have dr: "define_random li [?f] g = ([?f], g, None)"
    by (simp add: refresh_no_pending)
  have vs: "validate_site li False ?s = Inr True"
    using lay rg by (simp add: validate_site_def FaultSite_def pp bindE_def)
  have v: "validate li neuron [?f] = ([?f], Inr [?f])"
    using fm vs by (simp add: bindE_def fault_truthy_def Let_def)
  have ok: "- int (length (rounds ?c1)) \<le> - 1 \<and> - 1 < int (length (rounds ?c1))" by simp
  have pos: "py_pos (rounds ?c1) (- 1) = length (rounds c)" by (simp add: py_pos_def)
  have ins: "insert_many (rounds ?c1 ! length (rounds c)) [?f] = [?f]"
    by (simp add: insert_many_def FaultRound_def)
  have upd: "(rounds ?c1)[length (rounds c) := [?f]] = rounds c @ [[?f]]" by simp
  have "inject ?c1 [?f] (- 1) g = ((?c1\<lparr>rounds := rounds c @ [[?f]]\<rparr>, [?f], g), Inr [?f])"
    unfolding inject_def using ok c dr v pos ins upd
    by (simp del: define_random.simps validate.simps)
  then show ?thesis
    by (simp add: then_inject_def F single_site_round_def)
qed

lemma fold_append_rounds:
  "fold (\<lambda>p s. (fst s\<lparr>rounds := rounds (fst s) @ [F p]\<rparr>, snd s)) ps (c, g)
     = (c\<lparr>rounds := rounds c @ map F ps\<rparr>, g)"
  by (induction ps arbitrary: c) simp_all

lemma inject_positions_neuronal:
  fixes c :: "'f campaign"
  assumes c: "layers_info c = li" "slayer_neuron c = neuron"
    and lay: "is_injectable li (Some lay)" "get_shapes li False lay = Some [nc, nh, nw]" "lay \<noteq> []"
    and fm: "\<not> is_synaptic fm" "\<not> (is_parametric fm \<and> param_name fm \<notin> set neuron)"
    and ps: "set ps \<subseteq> set (neuron_positions nc nh nw)"
  shows "seq_all (inject_position fm lay) ps (c, g)
           = ((c\<lparr>rounds := rounds c @ map (single_site_round fm lay) ps\<rparr>, g), None)"
  using c ps
proof (induction ps arbitrary: c)
  case Nil
  then show ?case by simp
next
  case (Cons p ps)
  let ?c1 = "c\<lparr>rounds := rounds c @ [single_site_round fm lay p]\<rparr>"
  from Cons.prems have p: "p \<in> set (neuron_positions nc nh nw)" by simp
  have one: "inject_position fm lay p (c, g) = ((?c1, g), None)"
    using then_inject_valid [OF Cons.prems(1,2) lay fm p, of g]
    by (simp add: inject_position_def)
  have rest: "seq_all (inject_position fm lay) ps (?c1, g)
      = ((?c1\<lparr>rounds := rounds ?c1 @ map (single_site_round fm lay) ps\<rparr>, g), None)"
    by (rule Cons.IH) (use Cons.prems in simp_all)
  show ?case
    unfolding seq_all.simps seq_def one using rest by simp
qed

lemma inject_complete_neuronal:
  fixes c :: "'f campaign"
  assumes c: "layers_info c = li" "slayer_neuron c = neuron"
    and names: "lay_names_inj li layer_names = [lay]"
    and lay: "is_injectable li (Some lay)" "get_shapes li False lay = Some [nc, nh, nw]" "lay \<noteq> []"
    and fm: "\<not> is_synaptic fm" "\<not> (is_parametric fm \<and> param_name fm \<notin> set neuron)"
  shows "inject_complete fm layer_names (c, g) =
           ((c\<lparr>rounds := map (single_site_round fm lay) (neuron_positions nc nh nw)\<rparr>, g), None)"
proof -
  let ?c0 = "c\<lparr>rounds := []\<rparr>"
  have c0: "layers_info ?c0 = li" "slayer_neuron ?c0 = neuron" using c by simp_all
  have "seq_all (inject_position fm lay) (neuron_positions nc nh nw) (?c0, g)
      = ((?c0\<lparr>rounds := rounds ?c0 @ map (single_site_round fm lay) (neuron_positions nc nh nw)\<rparr>, g), None)"
    by (rule inject_positions_neuronal [OF c0 lay fm]) simp
  then have "inject_layer fm lay (?c0, g)
      = ((c\<lparr>rounds := map (single_site_round fm lay) (neuron_positions nc nh nw)\<rparr>, g), None)"
    using c lay fm by (simp add: inject_layer_def layer_positions_neuronal)
  then show ?thesis
    using c names by (simp add: inject_complete_def seq_def)
qed

lemma kept_fields_refl: "kept_fields c c"
  by (simp add: kept_fields_def)

lemma set_slot_kept: "kept_fields c s \<Longrightarrow> kept_fields c (set_slot l t k h s)"
  by (simp add: kept_fields_def set_slot_def split: option.splits)

lemma register_kept: "kept_fields c s \<Longrightarrow> kept_fields c (snd (register host h s))"
  by (simp add: kept_fields_def register_def)

lemma setdefault_kept: "kept_fields c s \<Longrightarrow> kept_fields c (setdefault_slots l s)"
  by (simp add: kept_fields_def setdefault_slots_def split: option.splits)

lemma perturb_neuronal_kept:
  "kept_fields c s \<Longrightarrow> kept_fields c (fst (perturb_neuronal r l s))"
  by (auto simp: perturb_neuronal_def split: option.splits prod.splits
      intro!: set_slot_kept dest: register_kept [where host = "the (get_following (layers_info s) l)" and h = "NeuronPre l"])

lemma perturb_parametric_kept:
  "kept_fields c s \<Longrightarrow> kept_fields c (fst (perturb_parametric r l s))"
proof -
  assume k: "kept_fields c s"
  let ?s1 = "s\<lparr>flayers := flayers s @ map model (search_parametric r l)\<rparr>"
  from k have k1: "kept_fields c ?s1" by (simp add: kept_fields_def)
  from register_kept [OF k1, of l "ParametricPost l"]
  have "kept_fields c (set_slot l (get_index P) 1 (fst (register l (ParametricPost l) ?s1))
          (snd (register l (ParametricPost l) ?s1)))"
    by (rule set_slot_kept)
  with k k1 show ?thesis
    by (auto simp: perturb_parametric_def Let_def split: prod.splits)
qed

lemma perturb_synaptic_kept:
  "kept_fields c s \<Longrightarrow> kept_fields c (fst (perturb_synaptic r l s))"
proof -
  assume k: "kept_fields c s"
  obtain h0 c0 where r0: "register l (SynapticPre l) s = (h0, c0)" by (cases "register l (SynapticPre l) s")
  obtain h1 c1 where r1: "register l (SynapticPost l) (set_slot l (get_index W) 0 h0 c0) = (h1, c1)"
    by (cases "register l (SynapticPost l) (set_slot l (get_index W) 0 h0 c0)")
  from register_kept [OF k, of l "SynapticPre l"] r0 have "kept_fields c c0" by simp
  then have "kept_fields c (set_slot l (get_index W) 0 h0 c0)" by (rule set_slot_kept)
  from register_kept [OF this, of l "SynapticPost l"] r1 have "kept_fields c c1" by simp
  then have "kept_fields c (set_slot l (get_index W) 1 h1 c1)" by (rule set_slot_kept)
  with k r0 r1 show ?thesis by (simp add: perturb_synaptic_def)
qed

lemma perturb_layer_kept:
  assumes "kept_fields c s"
  shows "kept_fields c (fst (perturb_layer r l s))"
  unfolding perturb_layer_def
proof (rule seq_fst [where Q = "kept_fields c"])
  fix s assume q: "kept_fields c s"
  show "kept_fields c (fst (if any_neuronal r l then seq (perturb_neuronal r l) (perturb_parametric r l) s else (s, None)))"
  proof (cases "any_neuronal r l")
    case True
    have "kept_fields c (fst (seq (perturb_neuronal r l) (perturb_parametric r l) s))"
      by (rule seq_fst [where Q = "kept_fields c"])
         (auto intro: perturb_neuronal_kept perturb_parametric_kept q)
    with True show ?thesis by simp
  next
    case False
    with q show ?thesis by simp
  qed
next
  fix s assume "kept_fields c s"
  then show "kept_fields c (fst (perturb_synaptic r l s))" by (rule perturb_synaptic_kept)
next
  show "kept_fields c (setdefault_slots l s)" using assms by (rule setdefault_kept)
qed

lemma perturb_net_kept: "kept_fields c (fst (perturb_net orr c))"
proof -
  have "kept_fields c (fst (seq_all (perturb_layer (oround_faults orr)) ls c))" for ls
    by (rule seq_all_fst [where Q = "kept_fields c"]) (auto intro: perturb_layer_kept kept_fields_refl)
  then show ?thesis by (simp add: perturb_net_def)
qed

lemma pre_run_round_rounds:
  "rounds (fst (pre_run_round z p c)) = rounds c \<and> layers_info (fst (pre_run_round z p c)) = layers_info c"
proof -
  obtain r round where p: "p = (r, round)" by (cases p)
  show ?thesis
  proof (cases "optimized (layers_info c) round")
    case (Inl e)
    with p show ?thesis by (simp add: pre_run_round_def)
  next
    case (Inr orr)
    let ?c1 = "c\<lparr>orounds := orounds c @ [orr], rgroups := rgroups_add (rgroups c) (early_name orr) r\<rparr>"
    from perturb_net_kept [of ?c1 orr]
    have "rounds (fst (perturb_net orr ?c1)) = rounds c"
      "layers_info (fst (perturb_net orr ?c1)) = layers_info c"
      by (simp_all add: kept_fields_def)
    then show ?thesis using p Inr
      by (cases "perturb_net orr ?c1"; cases "snd (perturb_net orr ?c1)")
         (simp_all add: pre_run_round_def seq_def)
  qed
qed

lemma pre_run_rounds:
  "rounds (fst (pre_run z c)) = (if rounds c = [] then [FaultRound] else rounds c)"
proof -
  let ?R = "if rounds c = [] then [FaultRound] else rounds c"
  let ?c0 = "c\<lparr>rounds := ?R, r_idx := 0, orounds := [], rgroups := [], handles := Map.empty,
                 performance := [], faulty_hooks := []\<rparr>"
  have "rounds (fst (seq (seq_all (pre_run_round z) (enumerate 0 (rounds ?c0))) sort_rgroups ?c0)) = ?R"
  proof (rule seq_fst [where Q = "\<lambda>s. rounds s = ?R"])
    fix s :: "'a campaign" assume "rounds s = ?R"
    then show "rounds (fst (seq_all (pre_run_round z) (enumerate 0 (rounds ?c0)) s)) = ?R"
      by (rule seq_all_fst [where Q = "\<lambda>s. rounds s = ?R", rotated])
         (simp add: pre_run_round_rounds)
  next
    fix s :: "'a campaign" assume "rounds s = ?R"
    then show "rounds (fst (sort_rgroups s)) = ?R" by (simp add: sort_rgroups_def)
  next
    show "rounds ?c0 = ?R" by simp
  qed
  then show ?thesis by (simp add: pre_run_def Let_def)
qed

lemma round_step_rounds: "rounds (fst (fst (round_step env error batch gs r s))) = rounds (fst s)"
  by (auto simp: round_step_def Let_def split: prod.splits sum.splits)

lemma batch_step_rounds: "rounds (fst (fst (batch_step env error batch s))) = rounds (fst s)"
  unfolding batch_step_def
  by (rule seq_all_fst [where Q = "\<lambda>t. rounds (fst t) = rounds (fst s)"])
     (simp_all add: round_step_rounds)

lemma evaluate_optimized_rounds:
  "rounds (fst (fst (evaluate_optimized env error loader s))) = rounds (fst s)"
proof (cases "py_get (order (layers_info (fst s))) (- 1)")
  case (Inl e)
  then show ?thesis by (simp add: evaluate_optimized_def)
next
  case (Inr n)
  have "rounds (fst (fst (seq_all (batch_step env error) loader s))) = rounds (fst s)"
    by (rule seq_all_fst [where Q = "\<lambda>t. rounds (fst t) = rounds (fst s)"])
       (simp_all add: batch_step_rounds)
  with Inr show ?thesis by (simp add: evaluate_optimized_def)
qed

lemma single_step_rounds:
  "rounds (fst (fst (single_step env error b n batch s))) = rounds (fst s)"
  by (auto simp: single_step_def Let_def split: prod.splits)

lemma evaluate_single_rounds:
  "rounds (fst (fst (evaluate_single env error loader s))) = rounds (fst s)"
proof -
  have "rounds (fst (fst (seq_all (single_step env error b n) loader s))) = rounds (fst s)" for b n
    by (rule seq_all_fst [where Q = "\<lambda>t. rounds (fst t) = rounds (fst s)"])
       (simp_all add: single_step_rounds)
  then show ?thesis
    by (auto simp: evaluate_single_def split: prod.splits sum.splits)
qed

lemma run_rounds:
  fixes env :: "('t, 'l, 'f, 'w) env"
  shows "rounds (fst (fst (run env error loader s))) = (if rounds (fst s) = [] then [FaultRound] else rounds (fst s))"
proof -
  let ?R = "if rounds (fst s) = [] then [FaultRound] else rounds (fst s)"
  let ?Q = "\<lambda>t :: 'f campaign \<times> 'w. rounds (fst t) = ?R"
  have a: "?Q (fst (case pre_run (float_zero env) (fst s) of (c, e) \<Rightarrow> ((c, golden_copy env), e)))"
    using pre_run_rounds [of "float_zero env" "fst s"] by (simp add: case_prod_unfold)
  have b: "?Q (fst (seq (\<lambda>s. if length (rounds (fst s)) \<le> 1 then evaluate_single env error loader s
                    else evaluate_optimized env error loader s)
              (\<lambda>s. ((fst s\<lparr>performance := map (stats_update env) (performance (fst s))\<rparr>, snd s), None)) t))"
    if "?Q t" for t
    by (rule seq_fst [where Q = ?Q])
       (use that in \<open>auto simp: evaluate_single_rounds evaluate_optimized_rounds\<close>)
  obtain c1 e1 where pr: "pre_run (float_zero env) (fst s) = (c1, e1)"
    by (cases "pre_run (float_zero env) (fst s)")
  with a have q1: "?Q (c1, golden_copy env)" by simp
  show ?thesis
  proof (cases e1)
    case (Some e)
    with pr q1 show ?thesis by (simp add: run_def seq_def)
  next
    case None
    with pr b [OF q1] show ?thesis by (simp add: run_def seq_def [of "\<lambda>s. case pre_run (float_zero env) (fst s) of (c, e) \<Rightarrow> ((c, golden_copy env), e)"])
  qed
qed

text \<open>
  C5, as amended. \<open>run_complete\<close> with a non-synaptic Fault Model that \<open>validate\<close> does
  not skip (it is not parametric, or its parameter name is one of the neuron model) and a
  single injectable layer of neuronal shape \<open>(nc, nh, nw)\<close>, all three at least 1, leaves
  the Campaign with exactly \<open>nc * nh * nw\<close> Rounds, whatever Rounds it had before and
  whether or not the evaluation that follows raises: one Round per position
  \<open>(slice(None), l, m, n)\<close>, each holding one Fault with that single site, the positions
  being pairwise distinct and covering the shape.
\<close>

theorem run_complete_neuronal_rounds:
  fixes env :: "('t, 'l, 'f, 'w) env" and c :: "'f campaign"
  assumes names: "lay_names_inj (layers_info c) layer_names = [lay]"
    and lay: "is_injectable (layers_info c) (Some lay)"
      "get_shapes (layers_info c) False lay = Some [nc, nh, nw]" "lay \<noteq> []"
    and fm: "\<not> is_synaptic fm" "\<not> (is_parametric fm \<and> param_name fm \<notin> set (slayer_neuron c))"
    and dims: "0 < nc" "0 < nh" "0 < nw"
  shows "rounds (fst (fst (fst (run_complete env error loader fm layer_names ((c, w), g)))))
           = map (single_site_round fm lay) (neuron_positions nc nh nw)
         \<and> length (rounds (fst (fst (fst (run_complete env error loader fm layer_names ((c, w), g))))))
           = nat (nc * nh * nw)
         \<and> distinct (neuron_positions nc nh nw)
         \<and> set (neuron_positions nc nh nw)
           = {Pos Wild (Idx l) (Idx m) (Idx n) | l m n.
                0 \<le> l \<and> l < nc \<and> 0 \<le> m \<and> m < nh \<and> 0 \<le> n \<and> n < nw}"
proof -
  let ?R = "map (single_site_round fm lay) (neuron_positions nc nh nw)"
  have ic: "inject_complete fm layer_names (c, g) = ((c\<lparr>rounds := ?R\<rparr>, g), None)"
    by (rule inject_complete_neuronal [OF refl refl names lay fm])
  have len: "length (neuron_positions nc nh nw) = nat (nc * nh * nw)"
    using dims by (simp add: length_neuron_positions nat_mult_distrib)
  from dims have "0 < nc * nh * nw" by simp
  with len have ne: "?R \<noteq> []" by auto
  have "rounds (fst (fst (run env error loader (c\<lparr>rounds := ?R\<rparr>, w)))) = ?R"
    using ne by (simp add: run_rounds)
  then have r: "rounds (fst (fst (fst (run_complete env error loader fm layer_names ((c, w), g))))) = ?R"
    by (simp add: run_complete_def ic case_prod_unfold)
  have s: "set (neuron_positions nc nh nw)
           = {Pos Wild (Idx l) (Idx m) (Idx n) | l m n.
                0 \<le> l \<and> l < nc \<and> 0 \<le> m \<and> m < nh \<and> 0 \<le> n \<and> n < nw}"
    by (auto simp: in_neuron_positions)
  from r len distinct_neuron_positions s show ?thesis by simp
qed

lemma py_range_2: "py_range 2 = [0, 1]" and py_range_1: "py_range 1 = [0]" and py_range_0: "py_range 0 = []"
  by (simp_all add: py_range_def upt_rec)

lemma ex_li_SF1:
  "lay_names_inj ex_li (Some [''SF1'']) = [''SF1'']"
  "is_injectable ex_li (Some ''SF1'')"
  "get_shapes ex_li False ''SF1'' = Some [2, 1, 1]"
  by (simp_all add: lay_names_inj_def is_injectable_def lookup_def ex_li_def get_shapes_def)

lemma ex_models:
  "\<not> is_synaptic dead_neuron"
  "\<not> (is_parametric dead_neuron \<and> param_name dead_neuron \<notin> set (slayer_neuron ex_campaign))"
  "\<not> is_synaptic bogus_param"
  "is_parametric bogus_param \<and> param_name bogus_param \<notin> set ex_neuron"
  by (simp_all add: is_synaptic_def is_parametric_def dead_neuron_def bogus_param_def ex_neuron_def)

theorem run_complete_neuronal_rounds_witness:
  "lay_names_inj (layers_info ex_campaign) (Some [''SF1'']) = [''SF1'']
   \<and> is_injectable (layers_info ex_campaign) (Some ''SF1'')
   \<and> get_shapes (layers_info ex_campaign) False ''SF1'' = Some [2, 1, 1]
   \<and> ''SF1'' \<noteq> []
   \<and> \<not> is_synaptic dead_neuron
   \<and> \<not> (is_parametric dead_neuron \<and> param_name dead_neuron \<notin> set (slayer_neuron ex_campaign))
   \<and> rounds (fst (fst (fst (run_complete ex_env None ex_loader dead_neuron (Some [''SF1''])
                                ((ex_campaign, 0), no_draws)))))
       = [single_site_round dead_neuron ''SF1'' (Pos Wild (Idx 0) (Idx 0) (Idx 0)),
          single_site_round dead_neuron ''SF1'' (Pos Wild (Idx 1) (Idx 0) (Idx 0))]
   \<and> length (rounds (fst (fst (fst (run_complete ex_env None ex_loader dead_neuron (Some [''SF1''])
                                ((ex_campaign, 0), no_draws)))))) = 2"
proof -
  have h: "lay_names_inj (layers_info ex_campaign) (Some [''SF1'']) = [''SF1'']"
    "is_injectable (layers_info ex_campaign) (Some ''SF1'')"
    "get_shapes (layers_info ex_campaign) False ''SF1'' = Some [2, 1, 1]"
    "''SF1'' \<noteq> []"
    by (simp_all add: ex_campaign_fields ex_li_SF1)
  have d: "(0::int) < 2" "(0::int) < 1" by simp_all
  note w = run_complete_neuronal_rounds [OF h ex_models(1,2) d(1) d(2) d(2),
      of ex_env None ex_loader 0 no_draws]
  from w have "rounds (fst (fst (fst (run_complete ex_env None ex_loader dead_neuron (Some [''SF1''])
                                ((ex_campaign, 0), no_draws)))))
       = map (single_site_round dead_neuron ''SF1'') (neuron_positions 2 1 1)"
    by (rule conjunct1)
  then have r: "rounds (fst (fst (fst (run_complete ex_env None ex_loader dead_neuron (Some [''SF1''])
                                ((ex_campaign, 0), no_draws)))))
       = [single_site_round dead_neuron ''SF1'' (Pos Wild (Idx 0) (Idx 0) (Idx 0)),
          single_site_round dead_neuron ''SF1'' (Pos Wild (Idx 1) (Idx 0) (Idx 0))]"
    by (simp add: neuron_positions_def py_range_2 py_range_1)
  from h ex_models(1,2) r show ?thesis by simp
qed

text \<open>
  The claim as stated fails for a parametric model whose parameter name the neuron model
  does not have: \<open>validate\<close> skips every Fault and the Rounds stay empty. It also fails on
  a layer with no neuron: no Round is injected and \<open>_pre_run\<close> reinstates one empty Round.
\<close>

lemma then_inject_unsupported:
  assumes c: "layers_info c = li" "slayer_neuron c = neuron"
    and s: "is_defined (FaultSite lay p)"
    and fm: "is_parametric fm \<and> param_name fm \<notin> set neuron"
  shows "then_inject c [Fault fm (FaultSite lay p)] g =
           ((c\<lparr>rounds := rounds c @ [[]]\<rparr>, single_site_round fm lay p, g), Inr [])"
proof -
  let ?f = "\<lparr>model = fm, sites = [FaultSite lay p], sites_pending = []\<rparr>"
  let ?c1 = "c\<lparr>rounds := rounds c @ [FaultRound]\<rparr>"
  from s have F: "Fault fm (FaultSite lay p) = ?f" by (simp add: Fault_def)
  have dr: "define_random li [?f] g = ([?f], g, None)" by (simp add: refresh_no_pending)
  have v: "validate li neuron [?f] = ([?f], Inr [])" using fm by simp
  have ok: "- int (length (rounds ?c1)) \<le> - 1 \<and> - 1 < int (length (rounds ?c1))" by simp
  have pos: "py_pos (rounds ?c1) (- 1) = length (rounds c)" by (simp add: py_pos_def)
  have ins: "insert_many (rounds ?c1 ! length (rounds c)) [] = []"
    by (simp add: insert_many_def FaultRound_def)
  have upd: "(rounds ?c1)[length (rounds c) := []] = rounds c @ [[]]" by simp
  have "inject ?c1 [?f] (- 1) g = ((?c1\<lparr>rounds := rounds c @ [[]]\<rparr>, [?f], g), Inr [])"
    unfolding inject_def using ok c dr v pos ins upd
    by (simp del: define_random.simps validate.simps)
  then show ?thesis
    by (simp add: then_inject_def F single_site_round_def)
qed

lemma ex_bogus_inject_complete:
  "inject_complete bogus_param (Some [''SF1'']) (ex_campaign, no_draws)
     = ((ex_campaign\<lparr>rounds := [[], []]\<rparr>, no_draws), None)"
proof -
  have d: "is_defined (FaultSite ''SF1'' (Pos Wild (Idx l) (Idx m) (Idx n)))" for l m n
    by (simp add: is_defined_def layer_falsy_def FaultSite_def)
  have step: "inject_position bogus_param ''SF1'' (Pos Wild (Idx l) (Idx m) (Idx n)) (c, g)
      = ((c\<lparr>rounds := rounds c @ [[]]\<rparr>, g), None)"
    if "layers_info c = ex_li" "slayer_neuron c = ex_neuron" for c :: "int campaign" and g :: rng and l :: int and m :: int and n :: int
    using then_inject_unsupported [OF that d ex_models(4), where g = g]
    by (simp add: inject_position_def)
  show ?thesis
    by (simp add: inject_complete_def inject_layer_def ex_campaign_fields ex_li_SF1 ex_models
        layer_positions_def py_range_2 py_range_1 seq_def step)
qed

lemma ex_empty_layer_inject_complete:
  "inject_complete dead_neuron None (campaign_init ex_li_empty_layer ex_neuron, no_draws)
     = ((campaign_init ex_li_empty_layer ex_neuron\<lparr>rounds := []\<rparr>, no_draws), None)"
  by (simp add: inject_complete_def inject_layer_def campaign_init_def lay_names_inj_def
      get_injectables_def ex_li_empty_layer_def get_shapes_def lookup_def ex_models
      layer_positions_def py_range_0 py_range_1 seq_def)

theorem run_complete_rounds_counterexample:
  "\<not> is_synaptic bogus_param
   \<and> get_shapes (layers_info ex_campaign) False ''SF1'' = Some [2, 1, 1]
   \<and> rounds (fst (fst (fst (run_complete ex_env None ex_loader bogus_param (Some [''SF1''])
                                ((ex_campaign, 0), no_draws))))) = [[], []]
   \<and> \<not> is_synaptic dead_neuron
   \<and> get_injectables ex_li_empty_layer = [''SF1'']
   \<and> get_shapes ex_li_empty_layer False ''SF1'' = Some [0, 1, 1]
   \<and> length (rounds (fst (fst (fst (run_complete ex_env None ex_loader dead_neuron None
                ((campaign_init ex_li_empty_layer ex_neuron, 0), no_draws)))))) = 1"
proof -
  have a: "rounds (fst (fst (fst (run_complete ex_env None ex_loader bogus_param (Some [''SF1''])
                                ((ex_campaign, 0), no_draws))))) = [[], []]"
    by (simp add: run_complete_def ex_bogus_inject_complete case_prod_unfold run_rounds)
  have b: "length (rounds (fst (fst (fst (run_complete ex_env None ex_loader dead_neuron None
                ((campaign_init ex_li_empty_layer ex_neuron, 0), no_draws)))))) = 1"
    by (simp add: run_complete_def ex_empty_layer_inject_complete case_prod_unfold run_rounds
        FaultRound_def)
  have c: "get_injectables ex_li_empty_layer = [''SF1'']"
    "get_shapes ex_li_empty_layer False ''SF1'' = Some [0, 1, 1]"
    by (simp_all add: get_injectables_def ex_li_empty_layer_def get_shapes_def lookup_def)
  from a b c ex_models(1,3) ex_li_SF1(3) show ?thesis
    by (simp add: ex_campaign_fields)
qed


subsection \<open>forward_opt and _evaluate_optimized\<close>

lemma filter_enumerate_range:
  "map snd (filter (\<lambda>(j, n). a \<le> j \<and> j \<le> b) (enumerate k xs))
     = drop (a - k) (take (Suc b - k) xs)"
proof (induction xs arbitrary: k)
  case Nil
  then show ?case by simp
next
  case (Cons x xs)
  show ?case
  proof (cases "k \<le> b")
    case False
    then show ?thesis using Cons [of "Suc k"] by simp
  next
    case kb: True
    then have t: "Suc b - k = Suc (b - k)" "Suc b - Suc k = b - k" by simp_all
    show ?thesis
    proof (cases "a \<le> k")
      case True
      with kb t show ?thesis using Cons [of "Suc k"] by simp
    next
      case False
      then have "a - k = Suc (a - Suc k)" by simp
      with False kb t show ?thesis using Cons [of "Suc k"] by simp
    qed
  qed
qed

lemma subject_layers_nat:
  "subject_layers li (int a) (int b) = drop a (take (Suc b) (order li))"
proof -
  have "(\<lambda>(lay_idx :: nat, lay_name :: string). int a \<le> int lay_idx \<and> int lay_idx \<le> int b)
      = (\<lambda>(j, n). a \<le> j \<and> j \<le> b)"
    by (simp add: fun_eq_iff)
  then show ?thesis
    unfolding subject_layers_def using filter_enumerate_range [of a b 0 "order li"]
    by simp
qed

lemma subject_layers_single:
  assumes "i < length li"
  shows "subject_layers li (int i) (int i) = [order li ! i]"
proof -
  from assms have "i < length (order li)" by (simp add: order_def)
  then have "drop i (take (Suc i) (order li)) = [order li ! i]"
    by (simp add: take_Suc_conv_app_nth)
  then show ?thesis by (simp only: subject_layers_nat)
qed

lemma subject_layers_from:
  "subject_layers li (int a) (int (length li) - 1) = drop a (order li)"
proof (cases "li = []")
  case True
  then show ?thesis by (simp add: subject_layers_def order_def)
next
  case False
  then have e: "int (length li) - 1 = int (length li - 1)" by (cases li) simp_all
  from False have "Suc (length li - 1) = length (order li)" by (cases li) (simp_all add: order_def)
  then have "drop a (take (Suc (length li - 1)) (order li)) = drop a (order li)" by simp
  then show ?thesis unfolding e by (simp only: subject_layers_nat)
qed

lemma subject_layers_all: "subject_layers li 0 (int (length li) - 1) = order li"
  using subject_layers_from [of li 0] by simp

lemma golden_single:
  "i < length li \<Longrightarrow>
     golden env li x (Some (int i)) (Some (int i))
       = fst (layer_step li (spike_psp env) (\<lambda>n w y. (golden_layer env n y, w)) (order li ! i) (x, ()))"
  by (simp add: golden_def forward_opt_def subject_layers_single)

lemma golden_full:
  "golden env li x None None
     = fst (fold (layer_step li (spike_psp env) (\<lambda>n w y. (golden_layer env n y, w))) (order li) (x, ()))"
  by (simp add: golden_def forward_opt_def subject_layers_all)

lemma golden_spikes_Suc:
  "fold (\<lambda>i gs. gs @ [F i (gs ! i)]) [0..<Suc n] [x]
     = fold (\<lambda>i gs. gs @ [F i (gs ! i)]) [0..<n] [x]
       @ [F n (fold (\<lambda>i gs. gs @ [F i (gs ! i)]) [0..<n] [x] ! n)]"
  by simp

lemma fold_spikes_length: "length (fold (\<lambda>i gs. gs @ [F i (gs ! i)]) [0..<n] [x]) = Suc n"
  by (induction n) simp_all

lemma fold_spikes_stable:
  "i \<le> n \<Longrightarrow> n \<le> m \<Longrightarrow>
     fold (\<lambda>i gs. gs @ [F i (gs ! i)]) [0..<m] [x] ! i = fold (\<lambda>i gs. gs @ [F i (gs ! i)]) [0..<n] [x] ! i"
proof (induction m)
  case 0
  then show ?case by simp
next
  case (Suc m)
  show ?case
  proof (cases "n = Suc m")
    case True
    then show ?thesis by simp
  next
    case False
    with Suc.prems have nm: "n \<le> m" by simp
    with Suc.prems have "i < Suc m" by simp
    then show ?thesis using Suc.IH [OF Suc.prems(1) nm]
      by (simp add: nth_append fold_spikes_length del: upt_Suc add: golden_spikes_Suc)
  qed
qed

lemma fold_spikes_step:
  "fold (\<lambda>i gs. gs @ [F i (gs ! i)]) [0..<Suc n] [x] ! Suc n
     = F n (fold (\<lambda>i gs. gs @ [F i (gs ! i)]) [0..<n] [x] ! n)"
  by (simp add: nth_append fold_spikes_length)

lemma golden_spikes_length: "length (golden_spikes env li input) = Suc (length li)"
  unfolding golden_spikes_def
  by (rule fold_spikes_length [where F = "\<lambda>i y. golden env li y (Some (int i)) (Some (int i))"])

lemma golden_spikes_0: "golden_spikes env li input ! 0 = input"
  unfolding golden_spikes_def
  using fold_spikes_stable [where F = "\<lambda>i y. golden env li y (Some (int i)) (Some (int i))"
      and i = 0 and n = 0 and m = "length li" and x = input]
  by simp

lemma golden_spikes_next:
  assumes "i < length li"
  shows "golden_spikes env li input ! Suc i
           = golden env li (golden_spikes env li input ! i) (Some (int i)) (Some (int i))"
proof -
  let ?F = "\<lambda>i y. golden env li y (Some (int i)) (Some (int i))"
  let ?G = "\<lambda>n. fold (\<lambda>i gs. gs @ [?F i (gs ! i)]) [0..<n] [input]"
  from assms have a: "?G (length li) ! Suc i = ?G (Suc i) ! Suc i"
    by (intro fold_spikes_stable) simp_all
  from assms have b: "?G (length li) ! i = ?G i ! i"
    by (intro fold_spikes_stable) simp_all
  have "?G (Suc i) ! Suc i = ?F i (?G i ! i)" by (rule fold_spikes_step)
  with a b show ?thesis by (simp add: golden_spikes_def)
qed

lemma golden_spikes_prefix:
  "n \<le> length li \<Longrightarrow>
     golden_spikes env li input ! n
       = fst (fold (layer_step li (spike_psp env) (\<lambda>n w y. (golden_layer env n y, w)))
                   (take n (order li)) (input, ()))"
proof (induction n)
  case 0
  then show ?case by (simp add: golden_spikes_0)
next
  case (Suc n)
  then have n: "n < length li" by simp
  then have t: "take (Suc n) (order li) = take n (order li) @ [order li ! n]"
    by (simp add: take_Suc_conv_app_nth order_def)
  have u: "(fst p, ()) = p" for p :: "'a \<times> unit" by (cases p) simp
  show ?case
    using Suc.IH n by (simp add: golden_spikes_next golden_single t u)
qed

lemma golden_spikes_last:
  "last (golden_spikes env li input) = golden env li input None None"
proof -
  have "golden_spikes env li input \<noteq> []"
    using golden_spikes_length [of env li input] by auto
  then have "last (golden_spikes env li input) = golden_spikes env li input ! length li"
    by (simp add: last_conv_nth golden_spikes_length)
  then show ?thesis
    by (simp add: golden_spikes_prefix golden_full order_def)
qed

lemma index_of_Some: "index_of xs n = Some k \<Longrightarrow> k < length xs \<and> xs ! k = n"
  by (induction xs arbitrary: k) (auto split: if_splits)

lemma fold_min_hd: "ks \<noteq> [] \<Longrightarrow> fold min ks (hd ks) = Min (set ks)"
  by (cases ks) (simp_all add: Min.set_eq_fold [symmetric])

lemma fold_max_hd: "ks \<noteq> [] \<Longrightarrow> fold max ks (hd ks) = Max (set ks)"
  by (cases ks) (simp_all add: Max.set_eq_fold [symmetric])

lemma optimized_sited:
  assumes opt: "optimized li round = Inr orr" and sited: "site_layers round \<noteq> []"
  shows "\<exists>e l. early_idx orr = Some (int e) \<and> late_idx orr = Some (int l) \<and> e \<le> l
           \<and> l < length li \<and> (\<not> is_out_faulty orr \<longrightarrow> Suc l < length li)
           \<and> oround_faults orr = round"
proof -
  let ?names = "site_layers round"
  let ?idxs = "map (index_of (order li)) ?names"
  let ?ks = "map the ?idxs"
  from opt have nn: "None \<notin> set ?idxs"
    by (auto simp: optimized_def Let_def split: if_splits)
  from sited have ne: "?idxs \<noteq> []" "?ks \<noteq> []" by simp_all
  let ?e = "Min (set ?ks)" and ?l = "Max (set ?ks)"
  from opt nn ne have orr: "orr = \<lparr>oround_faults = round, early_name = Some (order li ! ?e),
      early_idx = Some (int ?e), late_idx = Some (int ?l),
      is_out_faulty = list_ex (is_output li) ?names\<rparr>"
    by (simp add: optimized_def Let_def fold_min_hd fold_max_hd del: set_map)
  have mem: "\<exists>n \<in> set ?names. index_of (order li) n = Some k" if "k \<in> set ?ks" for k
  proof -
    from that obtain n where n: "n \<in> set ?names" "k = the (index_of (order li) n)" by auto
    with nn have "index_of (order li) n \<noteq> None" by force
    with n show ?thesis by auto
  qed
  have fin: "finite (set ?ks)" "set ?ks \<noteq> {}" using ne by simp_all
  have el: "?e \<le> ?l" using fin by (simp add: Min_le_iff)
  from Max_in [OF fin] mem obtain n where n: "n \<in> set ?names" "index_of (order li) n = Some ?l"
    by blast
  from index_of_Some [OF n(2)] have l: "?l < length li" "order li ! ?l = n"
    by (simp_all add: order_def)
  have "Suc ?l < length li" if "\<not> is_out_faulty orr"
  proof (rule ccontr)
    assume "\<not> Suc ?l < length li"
    with l have "?l = length li - 1" "li \<noteq> []" by auto
    with l have "n = last (order li)" by (simp add: last_conv_nth order_def)
    with \<open>li \<noteq> []\<close> have "is_output li n" by (simp add: is_output_def)
    with n(1) have "list_ex (is_output li) ?names" by (auto simp: list_ex_iff)
    with that orr show False by simp
  qed
  with el l orr show ?thesis by auto
qed

lemma py_get_nat: "n < length xs \<Longrightarrow> py_get xs (int n) = Inr (xs ! n)"
  by (simp add: py_get_def py_index_ok_def py_pos_def)

lemma py_get_last: "xs \<noteq> [] \<Longrightarrow> py_get xs (- 1) = Inr (last xs)"
  by (cases xs rule: rev_cases) (simp_all add: py_get_def py_index_ok_def py_pos_def nat_add_distrib)

lemma round_output_early_stop:
  fixes env :: "('t, 'l, 'f, 'w) env" and li :: layers_info and input :: 't
  assumes opt: "optimized li round = Inr orr"
    and sited: "site_layers round \<noteq> []"
    and not_out: "\<not> is_out_faulty orr"
  defines "gs \<equiv> golden_spikes env li input"
  shows "\<exists>e l. early_idx orr = Some (int e) \<and> late_idx orr = Some (int l) \<and> e \<le> l
           \<and> l + 2 \<le> length li
           \<and> gs ! (l + 2) = golden env li (gs ! (l + 1)) (Some (int (l + 1))) (Some (int (l + 1)))
           \<and> last gs = golden env li input None None
           \<and> (\<forall>late_out w1 late_next_out w2.
                 faulty env li r (gs ! e) (Some (int e)) (Some (int l)) w = (late_out, w1) \<longrightarrow>
                 faulty env li r late_out (Some (int l + 1)) (Some (int l + 1)) w1 = (late_next_out, w2) \<longrightarrow>
                 round_output env li gs r orr w =
                   (if torch_equal env late_next_out (gs ! (l + 2)) then (Inr (last gs), w2)
                    else (Inr (fst (faulty env li r late_next_out (Some (int l + 2)) None w2)),
                          snd (faulty env li r late_next_out (Some (int l + 2)) None w2))))"
proof -
  from optimized_sited [OF opt sited] not_out obtain e l where
    e: "early_idx orr = Some (int e)" and l: "late_idx orr = Some (int l)" and el: "e \<le> l"
    and ll: "Suc l < length li" and fr: "oround_faults orr = round"
    by blast
  from sited have "round \<noteq> []" by (auto simp: site_layers_def)
  with fr have truthy: "oround_truthy orr" by (simp add: oround_truthy_def)
  have len: "length gs = Suc (length li)" by (simp add: gs_def golden_spikes_length)
  then have ne: "gs \<noteq> []" by auto
  have g1: "py_get gs (int e) = Inr (gs ! e)" using el ll len by (intro py_get_nat) simp
  have "py_get gs (int (l + 2)) = Inr (gs ! (l + 2))" using ll len by (intro py_get_nat) simp
  moreover have "int (l + 2) = int l + 2" by simp
  ultimately have g2: "py_get gs (int l + 2) = Inr (gs ! (l + 2))" by (simp only:)
  have g3: "py_get gs (- 1) = Inr (last gs)" using ne by (rule py_get_last)
  have nxt: "gs ! (l + 2) = golden env li (gs ! (l + 1)) (Some (int (l + 1))) (Some (int (l + 1)))"
    using golden_spikes_next [of "Suc l" li env input] ll by (simp add: gs_def)
  have lst: "last gs = golden env li input None None" by (simp add: gs_def golden_spikes_last)
  have out: "round_output env li gs r orr w =
       (if torch_equal env late_next_out (gs ! (l + 2)) then (Inr (last gs), w2)
        else (Inr (fst (faulty env li r late_next_out (Some (int l + 2)) None w2)),
              snd (faulty env li r late_next_out (Some (int l + 2)) None w2)))"
    if "faulty env li r (gs ! e) (Some (int e)) (Some (int l)) w = (late_out, w1)"
      and "faulty env li r late_out (Some (int l + 1)) (Some (int l + 1)) w1 = (late_next_out, w2)"
    for late_out w1 late_next_out w2
    using that truthy not_out e l g1 g2 g3
    by (simp add: round_output_def case_prod_unfold)
  from e l el ll nxt lst out show ?thesis by (intro exI [of _ e] exI [of _ l]) simp
qed

lemma seq_cases: "seq a b s = (if snd (a s) = None then b (fst (a s)) else a s)"
  by (auto simp: seq_def split: prod.splits option.splits)

lemma seq_None:
  "seq a b s = (s', None) \<Longrightarrow> \<exists>s1. a s = (s1, None) \<and> b s1 = (s', None)"
  by (auto simp: seq_def split: prod.splits option.splits)

lemma seq_all_None_Cons:
  "seq_all f (x # xs) s = (s', None) \<Longrightarrow> \<exists>s1. f x s = (s1, None) \<and> seq_all f xs s1 = (s', None)"
  by (simp add: seq_None)

lemma seq_all_append:
  "seq_all f (xs @ ys) s = seq (seq_all f xs) (seq_all f ys) s"
  by (induction xs arbitrary: s) (auto simp: seq_cases)

lemma seq_all_fst_in:
  assumes "\<And>x s. x \<in> set xs \<Longrightarrow> Q s \<Longrightarrow> Q (fst (f x s))" "Q s"
  shows "Q (fst (seq_all f xs s))"
  using assms
proof (induction xs arbitrary: s)
  case Nil
  then show ?case by simp
next
  case (Cons x xs)
  from Cons.prems have "Q (fst (f x s))" by simp
  with Cons.IH [of "fst (f x s)"] Cons.prems(1) have "Q (fst (seq_all f xs (fst (f x s))))" by simp
  with \<open>Q (fst (f x s))\<close> show ?case by (simp add: seq_cases)
qed

lemma round_step_same_run:
  "i \<noteq> r \<Longrightarrow> same_setup c s \<and> performance (fst s) ! r = v \<Longrightarrow>
   same_setup c (fst (round_step env error batch gs i s))
   \<and> performance (fst (fst (round_step env error batch gs i s))) ! r = v"
  by (auto simp: round_step_def same_setup_def Let_def split: prod.splits sum.splits)

lemma round_step_same_setup:
  "same_setup c s \<Longrightarrow> same_setup c (fst (round_step env error batch gs i s))"
  by (auto simp: round_step_def same_setup_def Let_def split: prod.splits sum.splits)

lemma rounds_loop_same_run:
  fixes s :: "'a campaign \<times> 'b"
  assumes "r \<notin> set idxs" "same_setup c s" "performance (fst s) ! r = v"
  shows "same_setup c (fst (seq_all (round_step env error batch gs) idxs s))
   \<and> performance (fst (fst (seq_all (round_step env error batch gs) idxs s))) ! r = v"
proof (rule seq_all_fst_in [where Q = "\<lambda>s. same_setup c s \<and> performance (fst s) ! r = v"])
  fix x and s' :: "'a campaign \<times> 'b"
  assume "x \<in> set idxs" and "same_setup c s' \<and> performance (fst s') ! r = v"
  with assms(1) show "same_setup c (fst (round_step env error batch gs x s'))
      \<and> performance (fst (fst (round_step env error batch gs x s'))) ! r = v"
    by (intro round_step_same_run) auto
next
  from assms show "same_setup c s \<and> performance (fst s) ! r = v" by simp
qed

lemma batch_step_same_setup:
  "same_setup c s \<Longrightarrow> same_setup c (fst (batch_step env error batch s))"
  unfolding batch_step_def
  by (rule seq_all_fst [where Q = "same_setup c"]) (auto intro: round_step_same_setup)

lemma same_setup_refl: "same_setup c (c, w)"
  by (simp add: same_setup_def)

text \<open>The accumulator of a Round that a batch evaluates once, after the Rounds \<open>pre\<close>.\<close>

lemma batch_step_performance:
  assumes order: "concat (map snd (rgroups c)) = pre @ r # post" "r \<notin> set pre" "r \<notin> set post"
    and pre_ok: "seq_all (round_step env error batch (golden_spikes env (layers_info c) (fst batch))) pre (c, w0)
                   = (s1, None)"
    and step: "round_step env error batch (golden_spikes env (layers_info c) (fst batch)) r s1 = (s2, None)"
  shows "performance (fst (fst (batch_step env error batch (c, w0)))) ! r = performance (fst s2) ! r"
    and "batch_step env error batch (c, w0)
           = seq_all (round_step env error batch (golden_spikes env (layers_info c) (fst batch))) post s2"
proof -
  let ?f = "round_step env error batch (golden_spikes env (layers_info c) (fst batch))"
  show eq: "batch_step env error batch (c, w0) = seq_all ?f post s2"
    using order(1) pre_ok step by (simp add: batch_step_def seq_all_append seq_cases)
  from rounds_loop_same_run [OF order(3) same_setup_refl [of "fst s2" "snd s2"] refl, of env error batch
      "golden_spikes env (layers_info c) (fst batch)"]
  show "performance (fst (fst (batch_step env error batch (c, w0)))) ! r = performance (fst s2) ! r"
    by (simp add: eq)
qed

lemma evaluate_optimized_one_batch:
  assumes "layers_info c \<noteq> []"
  shows "fst (evaluate_optimized env error [batch] (c, w)) = fst (batch_step env error batch (c, w))"
proof -
  from assms have "order (layers_info c) \<noteq> []" by (simp add: order_def)
  from py_get_last [OF this] show ?thesis
    by (simp add: evaluate_optimized_def seq_cases)
qed

text \<open>
  C1. Take a Campaign as \<open>_pre_run\<close> leaves it and a Round \<open>r\<close> with at least one site
  whose Optimized Round does not affect the output stage, evaluated once in a batch, after
  the Rounds \<open>pre\<close> that raise no error and leave the faulty network in the state \<open>w\<close>.
  Then the early and late layer indices \<open>e \<le> l\<close> of the Round exist and stage \<open>l + 1\<close> is
  a stage of the network; entry \<open>l + 2\<close> of the golden activations cached for the batch is
  the golden output of the single stage \<open>l + 1\<close>, and the last entry is the final output of
  the golden network. The faulty network runs the stages \<open>e\<close> to \<open>l\<close> from the golden
  activation \<open>e\<close>, then the single stage \<open>l + 1\<close>. If its output equals the cached golden
  activation \<open>l + 2\<close>, the output of the Round is the cached final golden output, otherwise
  it is what the faulty network computes from stage \<open>l + 2\<close> to the end. That output is
  what the step of the Round records in the accumulator of the Round, and what the
  accumulator holds when the batch is done, also as \<open>_evaluate_optimized\<close> leaves it on
  that one batch.
\<close>

theorem early_stop_output:
  fixes env :: "('t, 'l, 'f, 'w) env" and c :: "'f campaign" and input tgt :: 't and label :: 'l
  assumes r: "r < length (orounds c)" "r < length (performance c)"
    and opt: "optimized (layers_info c) round = Inr (orounds c ! r)"
    and sited: "site_layers round \<noteq> []"
    and not_out: "\<not> is_out_faulty (orounds c ! r)"
    and order: "concat (map snd (rgroups c)) = pre @ r # post" "r \<notin> set pre" "r \<notin> set post"
    and pre_ok: "seq_all (round_step env error (input, tgt, label) (golden_spikes env (layers_info c) input))
                   pre (c, w0) = ((c1, w), None)"
  defines "li \<equiv> layers_info c" and "gs \<equiv> golden_spikes env (layers_info c) input"
    and "orr \<equiv> orounds c ! r"
  shows "\<exists>e l late_out w1 late_next_out w2 out w3.
           early_idx orr = Some (int e) \<and> late_idx orr = Some (int l) \<and> e \<le> l \<and> l + 2 \<le> length li
         \<and> gs ! (l + 2) = golden env li (gs ! (l + 1)) (Some (int (l + 1))) (Some (int (l + 1)))
         \<and> last gs = golden env li input None None
         \<and> faulty env li r (gs ! e) (Some (int e)) (Some (int l)) w = (late_out, w1)
         \<and> faulty env li r late_out (Some (int l + 1)) (Some (int l + 1)) w1 = (late_next_out, w2)
         \<and> (if torch_equal env late_next_out (gs ! (l + 2)) then out = last gs \<and> w3 = w2
             else faulty env li r late_next_out (Some (int l + 2)) None w2 = (out, w3))
         \<and> round_step env error (input, tgt, label) gs r (c1, w) =
             ((c1\<lparr>r_idx := r, performance := (performance c1)[r :=
                    advance_performance env (performance c ! r) out tgt label error]\<rparr>, w3), None)
         \<and> performance (fst (fst (batch_step env error (input, tgt, label) (c, w0)))) ! r
             = advance_performance env (performance c ! r) out tgt label error
         \<and> performance (fst (fst (evaluate_optimized env error [(input, tgt, label)] (c, w0)))) ! r
             = advance_performance env (performance c ! r) out tgt label error"
proof -
  from round_output_early_stop [OF opt sited not_out, of env input r w] obtain e l where
    e: "early_idx orr = Some (int e)" and l: "late_idx orr = Some (int l)" and el: "e \<le> l"
    and ll: "l + 2 \<le> length li"
    and nxt: "gs ! (l + 2) = golden env li (gs ! (l + 1)) (Some (int (l + 1))) (Some (int (l + 1)))"
    and lst: "last gs = golden env li input None None"
    and ro: "\<And>late_out w1 late_next_out w2.
       faulty env li r (gs ! e) (Some (int e)) (Some (int l)) w = (late_out, w1) \<Longrightarrow>
       faulty env li r late_out (Some (int l + 1)) (Some (int l + 1)) w1 = (late_next_out, w2) \<Longrightarrow>
       round_output env li gs r orr w =
         (if torch_equal env late_next_out (gs ! (l + 2)) then (Inr (last gs), w2)
          else (Inr (fst (faulty env li r late_next_out (Some (int l + 2)) None w2)),
                snd (faulty env li r late_next_out (Some (int l + 2)) None w2)))"
    unfolding li_def gs_def orr_def by blast
  obtain late_out w1 where f1: "faulty env li r (gs ! e) (Some (int e)) (Some (int l)) w = (late_out, w1)"
    by (cases "faulty env li r (gs ! e) (Some (int e)) (Some (int l)) w")
  obtain late_next_out w2 where
    f2: "faulty env li r late_out (Some (int l + 1)) (Some (int l + 1)) w1 = (late_next_out, w2)"
    by (cases "faulty env li r late_out (Some (int l + 1)) (Some (int l + 1)) w1")
  define out where "out = (if torch_equal env late_next_out (gs ! (l + 2)) then last gs
                           else fst (faulty env li r late_next_out (Some (int l + 2)) None w2))"
  define w3 where "w3 = (if torch_equal env late_next_out (gs ! (l + 2)) then w2
                         else snd (faulty env li r late_next_out (Some (int l + 2)) None w2))"
  from ro [OF f1 f2] have out: "round_output env li gs r orr w = (Inr out, w3)"
    by (simp add: out_def w3_def)
  have f3: "if torch_equal env late_next_out (gs ! (l + 2)) then out = last gs \<and> w3 = w2
            else faulty env li r late_next_out (Some (int l + 2)) None w2 = (out, w3)"
    by (simp add: out_def w3_def)
  from rounds_loop_same_run [OF order(2) same_setup_refl [of c w0] refl, of env error "(input, tgt, label)" gs]
    pre_ok
  have same: "layers_info c1 = li" "orounds c1 = orounds c" "length (performance c1) = length (performance c)"
    "performance c1 ! r = performance c ! r"
    by (simp_all add: gs_def li_def same_setup_def)
  from out r same have step: "round_step env error (input, tgt, label) gs r (c1, w) =
      ((c1\<lparr>r_idx := r, performance := (performance c1)[r :=
             advance_performance env (performance c ! r) out tgt label error]\<rparr>, w3), None)"
    by (simp add: round_step_def orr_def)
  from batch_step_performance(1) [OF order, of env error "(input, tgt, label)" w0 "(c1, w)"] pre_ok step r same
  have perf: "performance (fst (fst (batch_step env error (input, tgt, label) (c, w0)))) ! r
      = advance_performance env (performance c ! r) out tgt label error"
    by (simp add: gs_def)
  from ll have "layers_info c \<noteq> []" by (auto simp: li_def)
  from evaluate_optimized_one_batch [OF this, of env error "(input, tgt, label)" w0] perf
  have perf1: "performance (fst (fst (evaluate_optimized env error [(input, tgt, label)] (c, w0)))) ! r
      = advance_performance env (performance c ! r) out tgt label error"
    by simp
  from e l el ll nxt lst f1 f2 f3 step perf perf1 show ?thesis by blast
qed

lemma ex_prepared_round:
  "1 < length (orounds ex_prepared)" "1 < length (performance ex_prepared)"
  "optimized (layers_info ex_prepared) [ex_fault] = Inr (orounds ex_prepared ! 1)"
  "site_layers [ex_fault] \<noteq> []" "\<not> is_out_faulty (orounds ex_prepared ! 1)"
  "concat (map snd (rgroups ex_prepared)) = [0] @ 1 # []" "1 \<notin> set [0::nat]" "1 \<notin> set ([]::nat list)"
  by code_simp+

lemma ex_prepared_idx:
  "early_idx (orounds ex_prepared ! 1) = Some 0" "late_idx (orounds ex_prepared ! 1) = Some 0"
  "layers_info ex_prepared = ex_li"
  by code_simp+

theorem early_stop_output_witness:
  "1 < length (orounds ex_prepared) \<and> 1 < length (performance ex_prepared)
   \<and> optimized (layers_info ex_prepared) [ex_fault] = Inr (orounds ex_prepared ! 1)
   \<and> site_layers [ex_fault] \<noteq> [] \<and> \<not> is_out_faulty (orounds ex_prepared ! 1)
   \<and> concat (map snd (rgroups ex_prepared)) = [0] @ 1 # [] \<and> 1 \<notin> set [0::nat] \<and> 1 \<notin> set ([]::nat list)
   \<and> snd (seq_all (round_step ex_env ex_error (- 1, 0, 4) (golden_spikes ex_env (layers_info ex_prepared) (- 1)))
             [0] (ex_prepared, 0)) = None
   \<and> last (golden_spikes ex_env (layers_info ex_prepared) (- 1)) = 4
   \<and> performance (fst (fst (batch_step ex_env ex_error (- 1, 0, 4) (ex_prepared, 0)))) ! 1
        = \<lparr>correctSamples = 1, numSamples = 1, lossSum = 4\<rparr>
   \<and> performance (fst (fst (evaluate_optimized ex_env ex_error [(- 1, 0, 4)] (ex_prepared, 0)))) ! 1
        = \<lparr>correctSamples = 1, numSamples = 1, lossSum = 4\<rparr>
   \<and> snd (seq_all (round_step ex_env ex_error (3, 0, 20) (golden_spikes ex_env (layers_info ex_prepared) 3))
             [0] (ex_prepared, 0)) = None
   \<and> last (golden_spikes ex_env (layers_info ex_prepared) 3) = 20
   \<and> performance (fst (fst (batch_step ex_env ex_error (3, 0, 20) (ex_prepared, 0)))) ! 1
        = \<lparr>correctSamples = 0, numSamples = 1, lossSum = 4\<rparr>
   \<and> performance (fst (fst (evaluate_optimized ex_env ex_error [(3, 0, 20)] (ex_prepared, 0)))) ! 1
        = \<lparr>correctSamples = 0, numSamples = 1, lossSum = 4\<rparr>"
proof -
  let ?li = "layers_info ex_prepared"
  let ?g1 = "golden_spikes ex_env ?li (- 1)" and ?g2 = "golden_spikes ex_env ?li 3"
  let ?p1 = "seq_all (round_step ex_env ex_error (- 1, 0, 4) ?g1) [0] (ex_prepared, 0)"
  let ?p2 = "seq_all (round_step ex_env ex_error (3, 0, 20) ?g2) [0] (ex_prepared, 0)"
  have p1: "snd ?p1 = None" "snd (fst ?p1) = 0" by code_simp+
  then have pre1: "?p1 = ((fst (fst ?p1), 0), None)" by (metis prod.collapse)
  have p2: "snd ?p2 = None" "snd (fst ?p2) = 0" by code_simp+
  then have pre2: "?p2 = ((fst (fst ?p2), 0), None)" by (metis prod.collapse)
  have l1: "last ?g1 = 4" and l2: "last ?g2 = 20" by code_simp+
  have a1: "faulty ex_env ?li 1 (?g1 ! 0) (Some (int 0)) (Some (int 0)) 0 = (0, 1)" by code_simp
  have b1: "faulty ex_env ?li 1 (?g2 ! 0) (Some (int 0)) (Some (int 0)) 0 = (0, 1)" by code_simp
  have a2: "faulty ex_env ?li 1 0 (Some (int 0 + 1)) (Some (int 0 + 1)) 1 = (1, 2)" by code_simp
  have a3: "torch_equal ex_env 1 (?g1 ! (0 + 2))" by code_simp
  have b3: "\<not> torch_equal ex_env 1 (?g2 ! (0 + 2))"
    "faulty ex_env ?li 1 1 (Some (int 0 + 2)) None 2 = (4, 3)" by code_simp+
  have a4: "advance_performance ex_env (performance ex_prepared ! 1) 4 0 4 ex_error
      = \<lparr>correctSamples = 1, numSamples = 1, lossSum = 4\<rparr>" by code_simp
  have b4: "advance_performance ex_env (performance ex_prepared ! 1) 4 0 20 ex_error
      = \<lparr>correctSamples = 0, numSamples = 1, lossSum = 4\<rparr>" by code_simp
  from early_stop_output [OF ex_prepared_round pre1] obtain e l late_out w1 late_next_out w2 out w3 where
    e: "early_idx (orounds ex_prepared ! 1) = Some (int e)"
    and l: "late_idx (orounds ex_prepared ! 1) = Some (int l)"
    and f1: "faulty ex_env ?li 1 (?g1 ! e) (Some (int e)) (Some (int l)) 0 = (late_out, w1)"
    and f2: "faulty ex_env ?li 1 late_out (Some (int l + 1)) (Some (int l + 1)) w1 = (late_next_out, w2)"
    and f3: "if torch_equal ex_env late_next_out (?g1 ! (l + 2)) then out = last ?g1 \<and> w3 = w2
             else faulty ex_env ?li 1 late_next_out (Some (int l + 2)) None w2 = (out, w3)"
    and perf: "performance (fst (fst (batch_step ex_env ex_error (- 1, 0, 4) (ex_prepared, 0)))) ! 1
                 = advance_performance ex_env (performance ex_prepared ! 1) out 0 4 ex_error"
    and perf1: "performance (fst (fst (evaluate_optimized ex_env ex_error [(- 1, 0, 4)] (ex_prepared, 0)))) ! 1
                 = advance_performance ex_env (performance ex_prepared ! 1) out 0 4 ex_error"
    by blast
  from e l ex_prepared_idx have "e = 0" "l = 0" by simp_all
  with f1 a1 have "late_out = 0" "w1 = 1" by simp_all
  with f2 a2 \<open>l = 0\<close> have "late_next_out = 1" "w2 = 2" by simp_all
  with f3 a3 l1 \<open>l = 0\<close> have "out = 4" by simp
  with perf perf1 a4
  have r1: "performance (fst (fst (batch_step ex_env ex_error (- 1, 0, 4) (ex_prepared, 0)))) ! 1
        = \<lparr>correctSamples = 1, numSamples = 1, lossSum = 4\<rparr>"
    and s1: "performance (fst (fst (evaluate_optimized ex_env ex_error [(- 1, 0, 4)] (ex_prepared, 0)))) ! 1
        = \<lparr>correctSamples = 1, numSamples = 1, lossSum = 4\<rparr>" by simp_all
  from early_stop_output [OF ex_prepared_round pre2] obtain e l late_out w1 late_next_out w2 out w3 where
    e: "early_idx (orounds ex_prepared ! 1) = Some (int e)"
    and l: "late_idx (orounds ex_prepared ! 1) = Some (int l)"
    and f1: "faulty ex_env ?li 1 (?g2 ! e) (Some (int e)) (Some (int l)) 0 = (late_out, w1)"
    and f2: "faulty ex_env ?li 1 late_out (Some (int l + 1)) (Some (int l + 1)) w1 = (late_next_out, w2)"
    and f3: "if torch_equal ex_env late_next_out (?g2 ! (l + 2)) then out = last ?g2 \<and> w3 = w2
             else faulty ex_env ?li 1 late_next_out (Some (int l + 2)) None w2 = (out, w3)"
    and perf: "performance (fst (fst (batch_step ex_env ex_error (3, 0, 20) (ex_prepared, 0)))) ! 1
                 = advance_performance ex_env (performance ex_prepared ! 1) out 0 20 ex_error"
    and perf1: "performance (fst (fst (evaluate_optimized ex_env ex_error [(3, 0, 20)] (ex_prepared, 0)))) ! 1
                 = advance_performance ex_env (performance ex_prepared ! 1) out 0 20 ex_error"
    by blast
  from e l ex_prepared_idx have "e = 0" "l = 0" by simp_all
  with f1 b1 have "late_out = 0" "w1 = 1" by simp_all
  with f2 a2 \<open>l = 0\<close> have "late_next_out = 1" "w2 = 2" by simp_all
  with f3 b3 \<open>l = 0\<close> have "out = 4" by simp
  with perf perf1 b4
  have r2: "performance (fst (fst (batch_step ex_env ex_error (3, 0, 20) (ex_prepared, 0)))) ! 1
        = \<lparr>correctSamples = 0, numSamples = 1, lossSum = 4\<rparr>"
    and s2: "performance (fst (fst (evaluate_optimized ex_env ex_error [(3, 0, 20)] (ex_prepared, 0)))) ! 1
        = \<lparr>correctSamples = 0, numSamples = 1, lossSum = 4\<rparr>" by simp_all
  from ex_prepared_round p1(1) p2(1) l1 l2 r1 r2 s1 s2 show ?thesis by (intro conjI)
qed


subsection \<open>The empty Round\<close>

lemma count_list_concat:
  "count_list (concat xss) x = sum_list (map (\<lambda>xs. count_list xs x) xss)"
  by (induction xss) simp_all

lemma sum_list_insort_key:
  "sum_list (map f (insort_key k x ys)) = f x + sum_list (map f ys)" for f :: "'a \<Rightarrow> nat"
  by (induction ys) simp_all

lemma sum_list_sort_key:
  "sum_list (map f (sort_key k xs)) = sum_list (map f xs)" for f :: "'a \<Rightarrow> nat"
  by (induction xs) (simp_all add: sum_list_insort_key)

lemma count_concat_sort_key:
  "count_list (concat (map snd (sort_key k g))) x = count_list (concat (map snd g)) x"
  by (simp add: count_list_concat comp_def sum_list_sort_key [where f = "\<lambda>p. count_list (snd p) x"])

lemma count_append_group:
  "distinct (map fst g) \<Longrightarrow>
   count_list (concat (map snd (map (\<lambda>(k', v). if k' = k then (k', v @ [r]) else (k', v)) g))) x
     = count_list (concat (map snd g)) x + (if x = r \<and> k \<in> fst ` set g then 1 else 0)"
  by (induction g) (auto simp: case_prod_unfold)

lemma count_rgroups_add:
  "distinct (map fst g) \<Longrightarrow>
   count_list (concat (map snd (rgroups_add g k r))) x
     = count_list (concat (map snd g)) x + (if x = r then 1 else 0)"
  by (simp add: rgroups_add_def count_append_group del: map_map)

lemma fst_append_group:
  "map fst (map (\<lambda>(k', v). if k' = k then (k', v @ [r]) else (k', v)) g) = map fst g"
  by (induction g) (auto simp: case_prod_unfold)

lemma distinct_rgroups_add:
  "distinct (map fst g) \<Longrightarrow> distinct (map fst (rgroups_add g k r))"
  by (simp add: rgroups_add_def fst_append_group del: map_map)

lemma drop_eq_Cons:
  assumes "drop k rs = x # xs"
  shows "k < length rs \<and> rs ! k = x \<and> drop (Suc k) rs = xs"
proof -
  from assms have k: "k < length rs" by (cases "k < length rs") simp_all
  from Cons_nth_drop_Suc [OF k] assms show ?thesis using k by simp
qed


lemma pre_run_round_prepared:
  assumes step: "pre_run_round z (k, rs ! k) c = (c', None)"
    and inv: "prepared z li rs k c"
  shows "prepared z li rs (Suc k) c'"
proof (cases "optimized li (rs ! k)")
  case (Inl e)
  with step inv show ?thesis by (simp add: pre_run_round_def prepared_def)
next
  case (Inr orr)
  let ?c1 = "c\<lparr>orounds := orounds c @ [orr], rgroups := rgroups_add (rgroups c) (early_name orr) k\<rparr>"
  from inv have li: "layers_info c = li" and rs: "rounds c = rs" and len: "length (orounds c) = k"
    and opt: "\<forall>i<k. optimized li (rs ! i) = Inr (orounds c ! i)"
    and perf: "performance c = replicate k (spikeStats z)"
    and dist: "distinct (map fst (rgroups c))"
    and cnt: "\<forall>x. count_list (concat (map snd (rgroups c))) x = (if x < k then 1 else 0)"
    by (simp_all add: prepared_def)
  from step Inr li
  have "seq (perturb_net orr) (\<lambda>c. (c\<lparr>performance := performance c @ [spikeStats z]\<rparr>, None)) ?c1 = (c', None)"
    by (simp add: pre_run_round_def)
  from seq_None [OF this] obtain c2 where
    a: "perturb_net orr ?c1 = (c2, None)" and b: "c' = c2\<lparr>performance := performance c2 @ [spikeStats z]\<rparr>"
    by auto
  from perturb_net_kept [of ?c1 orr] a have kept: "kept_fields ?c1 c2" by simp
  then have k1: "layers_info c2 = li" and k2: "rounds c2 = rs" and k3: "orounds c2 = orounds c @ [orr]"
    and k4: "rgroups c2 = rgroups_add (rgroups c) (early_name orr) k" and k5: "performance c2 = performance c"
    using li rs by (simp_all add: kept_fields_def)
  have o: "optimized li (rs ! i) = Inr ((orounds c @ [orr]) ! i)" if "i < Suc k" for i
  proof (cases "i = k")
    case True
    with Inr len show ?thesis by (simp add: nth_append)
  next
    case False
    with that have "i < k" by simp
    with opt len show ?thesis by (simp add: nth_append)
  qed
  have p: "replicate k (spikeStats z) @ [spikeStats z] = replicate (Suc k) (spikeStats z)"
    by (simp add: replicate_append_same)
  have n: "count_list (concat (map snd (rgroups_add (rgroups c) (early_name orr) k))) x
      = (if x < Suc k then 1 else 0)" for x
    using cnt by (auto simp: count_rgroups_add [OF dist])
  have d: "distinct (map fst (rgroups_add (rgroups c) (early_name orr) k))"
    using dist by (rule distinct_rgroups_add)
  have "layers_info c' = li" using b k1 by simp
  moreover have "rounds c' = rs" using b k2 by simp
  moreover have "length (orounds c') = Suc k" using b k3 len by simp
  moreover have "\<forall>i<Suc k. optimized li (rs ! i) = Inr (orounds c' ! i)" using b k3 o by simp
  moreover have "performance c' = replicate (Suc k) (spikeStats z)"
  proof -
    have "performance c' = replicate k (spikeStats z) @ [spikeStats z]" using b k5 perf by simp
    then show ?thesis by (simp only: p)
  qed
  moreover have "distinct (map fst (rgroups c'))" using b k4 d by simp
  moreover have "\<forall>x. count_list (concat (map snd (rgroups c'))) x = (if x < Suc k then 1 else 0)"
    using b k4 n by simp
  ultimately show ?thesis unfolding prepared_def by (intro conjI)
qed

lemma pre_run_rounds_prepared:
  "seq_all (pre_run_round z) (enumerate k xs) c = (c', None) \<Longrightarrow> prepared z li rs k c
     \<Longrightarrow> drop k rs = xs \<Longrightarrow> prepared z li rs (k + length xs) c'"
proof (induction xs arbitrary: k c)
  case Nil
  then show ?case by simp
next
  case (Cons x xs)
  from drop_eq_Cons [OF Cons.prems(3)]
  have k: "k < length rs" and x: "rs ! k = x" and rest: "drop (Suc k) rs = xs" by simp_all
  from Cons.prems(1) have "seq_all (pre_run_round z) ((k, x) # enumerate (Suc k) xs) c = (c', None)"
    by simp
  from seq_all_None_Cons [OF this] obtain c1 where
    a: "pre_run_round z (k, x) c = (c1, None)"
    and b: "seq_all (pre_run_round z) (enumerate (Suc k) xs) c1 = (c', None)"
    by blast
  from a x have "pre_run_round z (k, rs ! k) c = (c1, None)" by simp
  from pre_run_round_prepared [OF this Cons.prems(2)] have "prepared z li rs (Suc k) c1" .
  from Cons.IH [OF b this rest] show ?case by simp
qed

lemma sort_rgroups_None:
  "sort_rgroups c = (c', None) \<Longrightarrow>
   c' = c\<lparr>rgroups := sort_key (\<lambda>(k, v). the (group_key (layers_info c) k)) (rgroups c)\<rparr>"
  by (simp add: sort_rgroups_def split: if_splits)

lemma pre_run_prepared:
  assumes run: "pre_run z c = (c', None)"
  defines "rs \<equiv> (if rounds c = [] then [FaultRound] else rounds c)"
  shows "layers_info c' = layers_info c" "rounds c' = rs" "length (orounds c') = length rs"
    "length (performance c') = length rs"
    "i < length rs \<Longrightarrow> optimized (layers_info c) (rs ! i) = Inr (orounds c' ! i)"
    "i < length rs \<Longrightarrow> performance c' ! i = spikeStats z"
    "i < length rs \<Longrightarrow> count_list (concat (map snd (rgroups c'))) i = 1"
proof -
  let ?c0 = "c\<lparr>rounds := rs, r_idx := 0, orounds := [], rgroups := [], handles := Map.empty,
                 performance := [], faulty_hooks := []\<rparr>"
  from run have "seq (seq_all (pre_run_round z) (enumerate 0 rs)) sort_rgroups ?c0 = (c', None)"
    by (simp add: pre_run_def rs_def Let_def)
  from seq_None [OF this] obtain c1 where
    a: "seq_all (pre_run_round z) (enumerate 0 rs) ?c0 = (c1, None)" and b: "sort_rgroups c1 = (c', None)"
    by blast
  have "prepared z (layers_info c) rs 0 ?c0" by (simp add: prepared_def)
  from pre_run_rounds_prepared [OF a this] have "prepared z (layers_info c) rs (length rs) c1" by simp
  then have li: "layers_info c1 = layers_info c" and r: "rounds c1 = rs"
    and len: "length (orounds c1) = length rs"
    and opt: "\<forall>i<length rs. optimized (layers_info c) (rs ! i) = Inr (orounds c1 ! i)"
    and perf: "performance c1 = replicate (length rs) (spikeStats z)"
    and cnt: "\<forall>x. count_list (concat (map snd (rgroups c1))) x = (if x < length rs then 1 else 0)"
    by (simp_all add: prepared_def)
  note c' = sort_rgroups_None [OF b]
  show "layers_info c' = layers_info c" by (subst c') (simp add: li)
  show "rounds c' = rs" by (subst c') (simp add: r)
  show "length (orounds c') = length rs" by (subst c') (simp add: len)
  show "length (performance c') = length rs" by (subst c') (simp add: perf)
  show "optimized (layers_info c) (rs ! i) = Inr (orounds c' ! i)" if "i < length rs"
    using that opt by (subst c') simp
  show "performance c' ! i = spikeStats z" if "i < length rs"
    using that by (subst c') (simp add: perf)
  show "count_list (concat (map snd (rgroups c'))) i = 1" if "i < length rs"
    using that cnt by (subst c') (simp add: count_concat_sort_key)
qed

lemma optimized_faults: "optimized li round = Inr orr \<Longrightarrow> oround_faults orr = round"
  by (auto simp: optimized_def Let_def split: if_splits)

lemma round_step_empty:
  assumes "r < length (orounds c)" "r < length (performance c)" "\<not> oround_truthy (orounds c ! r)"
    and "gs \<noteq> []"
  shows "round_step env error (input, tgt, label) gs r (c, w) =
           ((c\<lparr>r_idx := r, performance := (performance c)[r :=
                  advance_performance env (performance c ! r) (last gs) tgt label error]\<rparr>, w), None)"
  using assms by (simp add: round_step_def round_output_def py_get_last)

lemma count_list_one_split:
  assumes "count_list xs r = 1"
  shows "\<exists>pre post. xs = pre @ r # post \<and> r \<notin> set pre \<and> r \<notin> set post"
proof -
  from assms have "r \<in> set xs" by (metis count_list_0_iff zero_neq_one)
  then obtain pre post where xs: "xs = pre @ r # post" and pre: "r \<notin> set pre"
    by (meson split_list_first)
  from pre have "count_list pre r = 0" by (simp add: count_list_0_iff)
  with assms xs have "count_list post r = 0" by simp
  then have "r \<notin> set post" by (simp add: count_list_0_iff)
  with xs pre show ?thesis by blast
qed


lemma batch_step_empty_round:
  fixes env :: "('t, 'l, 'f, 'w) env"
  assumes r: "r < length (orounds c)" "r < length (performance c)" "\<not> oround_truthy (orounds c ! r)"
    and once: "count_list (concat (map snd (rgroups c))) r = 1"
    and ok: "snd (batch_step env error batch (c, w0)) = None"
  shows "performance (fst (fst (batch_step env error batch (c, w0)))) ! r
           = advance_performance env (performance c ! r) (golden env (layers_info c) (fst batch) None None)
               (fst (snd batch)) (snd (snd batch)) error"
proof -
  let ?gs = "golden_spikes env (layers_info c) (fst batch)"
  let ?f = "round_step env error batch ?gs"
  obtain input tgt label where batch: "batch = (input, tgt, label)" by (cases batch)
  from count_list_one_split [OF once] obtain pre post where
    order: "concat (map snd (rgroups c)) = pre @ r # post" "r \<notin> set pre" "r \<notin> set post"
    by blast
  have pre_ok: "snd (seq_all ?f pre (c, w0)) = None"
    using ok order(1) by (simp add: batch_step_def seq_all_append seq_cases split: if_splits)
  obtain c1 w where s1: "fst (seq_all ?f pre (c, w0)) = (c1, w)" by (cases "fst (seq_all ?f pre (c, w0))")
  with pre_ok have run: "seq_all ?f pre (c, w0) = ((c1, w), None)" by (metis prod.collapse)
  from rounds_loop_same_run [OF order(2) same_setup_refl [of c w0] refl, of env error batch ?gs] s1
  have same: "orounds c1 = orounds c" "length (performance c1) = length (performance c)"
    "performance c1 ! r = performance c ! r"
    by (simp_all add: same_setup_def)
  have ne: "?gs \<noteq> []" using golden_spikes_length [of env "layers_info c" "fst batch"] by auto
  from round_step_empty [of r c1 ?gs env error input tgt label w] r same ne
  have step: "?f r (c1, w) = ((c1\<lparr>r_idx := r, performance := (performance c1)[r :=
                  advance_performance env (performance c ! r) (last ?gs) tgt label error]\<rparr>, w), None)"
    by (simp add: batch)
  from batch_step_performance(1) [OF order run step] r same show ?thesis
    by (simp add: batch golden_spikes_last)
qed

lemma evaluate_loop_empty_round:
  fixes env :: "('t, 'l, 'f, 'w) env" and s :: "'f campaign \<times> 'w"
  assumes "snd (seq_all (batch_step env error) loader s) = None"
    and "r < length (orounds (fst s))" "r < length (performance (fst s))"
    and "\<not> oround_truthy (orounds (fst s) ! r)"
    and "count_list (concat (map snd (rgroups (fst s)))) r = 1"
  shows "performance (fst (fst (seq_all (batch_step env error) loader s))) ! r =
           fold (\<lambda>batch st. advance_performance env st (golden env (layers_info (fst s)) (fst batch) None None)
                               (fst (snd batch)) (snd (snd batch)) error)
                loader (performance (fst s) ! r)"
  using assms
proof (induction loader arbitrary: s)
  case Nil
  then show ?case by simp
next
  case (Cons batch loader)
  let ?s1 = "fst (batch_step env error batch s)"
  from Cons.prems(1) have ok1: "snd (batch_step env error batch s) = None"
    and ok2: "snd (seq_all (batch_step env error) loader ?s1) = None"
    by (simp_all add: seq_cases split: if_splits)
  from batch_step_same_setup [OF same_setup_refl [of "fst s" "snd s"], of env error batch]
  have same: "layers_info (fst ?s1) = layers_info (fst s)" "orounds (fst ?s1) = orounds (fst s)"
    "rgroups (fst ?s1) = rgroups (fst s)" "length (performance (fst ?s1)) = length (performance (fst s))"
    by (simp_all add: same_setup_def)
  from batch_step_empty_round [of r "fst s" env error batch "snd s"] Cons.prems ok1
  have one: "performance (fst ?s1) ! r
      = advance_performance env (performance (fst s) ! r) (golden env (layers_info (fst s)) (fst batch) None None)
          (fst (snd batch)) (snd (snd batch)) error"
    by simp
  from Cons.IH [OF ok2] Cons.prems same one ok1 show ?case by (simp add: seq_cases)
qed

lemma seq_ok: "snd (a s) = None \<Longrightarrow> seq a b s = b (fst (a s))"
  by (simp add: seq_cases)

lemma seq_err: "snd (a s) \<noteq> None \<Longrightarrow> seq a b s = a s"
  by (auto simp: seq_cases)

lemma evaluate_optimized_loop:
  "snd (evaluate_optimized env error loader s) = None \<Longrightarrow>
   evaluate_optimized env error loader s = seq_all (batch_step env error) loader s"
  by (simp add: evaluate_optimized_def split: sum.splits)

lemma evaluate_optimized_same_setup:
  "same_setup c (fst (evaluate_optimized env error loader (c, w)))"
proof (cases "py_get (order (layers_info c)) (- 1)")
  case (Inl e)
  then show ?thesis by (simp add: evaluate_optimized_def same_setup_def)
next
  case (Inr n)
  have "same_setup c (fst (seq_all (batch_step env error) loader (c, w)))"
    by (rule seq_all_fst [where Q = "same_setup c"]) (auto intro: batch_step_same_setup same_setup_refl)
  with Inr show ?thesis by (simp add: evaluate_optimized_def)
qed

text \<open>
  C3. Take a Campaign of more than one Round whose Round \<open>r\<close> is empty, and a run that
  raises no error. After the evaluation on the optimized path the accumulator of Round \<open>r\<close>
  is the one of the golden network evaluated directly on the same batches, and \<open>run\<close>
  leaves it updated. Whatever the accumulators hold, the step of Round \<open>r\<close> on a batch
  records the last of the golden activations cached for the batch, which is the final output
  of the golden network, and leaves the faulty network in the state it found it in.
\<close>

theorem empty_round_is_golden_baseline:
  fixes env :: "('t, 'l, 'f, 'w) env" and c :: "'f campaign"
  assumes multi: "1 < length (rounds c)"
    and r: "r < length (rounds c)" and empty: "rounds c ! r = []"
    and ok: "snd (run env error loader (c, w)) = None"
  defines "c1 \<equiv> fst (pre_run (float_zero env) c)"
  shows "performance (fst (fst (evaluate_optimized env error loader (c1, golden_copy env)))) ! r
           = golden_baseline env (layers_info c) error loader
       \<and> performance (fst (fst (run env error loader (c, w)))) ! r
           = stats_update env (golden_baseline env (layers_info c) error loader)
       \<and> (\<forall>c' w' input tgt label.
             orounds c' = orounds c1 \<longrightarrow> length (performance c') = length (performance c1) \<longrightarrow>
             last (golden_spikes env (layers_info c) input) = golden env (layers_info c) input None None
             \<and> round_step env error (input, tgt, label) (golden_spikes env (layers_info c) input) r (c', w')
                 = ((c'\<lparr>r_idx := r, performance := (performance c')[r :=
                        advance_performance env (performance c' ! r)
                          (last (golden_spikes env (layers_info c) input)) tgt label error]\<rparr>, w'), None))"
proof -
  let ?A = "\<lambda>s. case pre_run (float_zero env) (fst s) of (c, e) \<Rightarrow> ((c, golden_copy env), e)"
  let ?B = "\<lambda>s. if length (rounds (fst s)) \<le> 1 then evaluate_single env error loader s
                 else evaluate_optimized env error loader s"
  let ?C = "\<lambda>s. ((fst s\<lparr>performance := map (stats_update env) (performance (fst s))\<rparr>, snd s), None)"
  let ?s1 = "(c1, golden_copy env)"
  let ?E = "evaluate_optimized env error loader ?s1"
  have run_eq: "run env error loader (c, w) = seq ?A (seq ?B ?C) (c, w)" by (simp add: run_def)
  have A: "?A (c, w) = (?s1, snd (pre_run (float_zero env) c))"
    by (simp add: c1_def case_prod_unfold)
  have okA: "snd (pre_run (float_zero env) c) = None"
  proof (rule ccontr)
    assume n: "snd (pre_run (float_zero env) c) \<noteq> None"
    with A have "snd (?A (c, w)) \<noteq> None" by simp
    then have "seq ?A (seq ?B ?C) (c, w) = ?A (c, w)" by (rule seq_err)
    with ok n A show False unfolding run_eq by simp
  qed
  then have pre: "pre_run (float_zero env) c = (c1, None)" by (simp add: c1_def prod_eq_iff)
  from multi have rs: "(if rounds c = [] then [FaultRound] else rounds c) = rounds c" by auto
  note prep = pre_run_prepared [OF pre, unfolded rs]
  from A okA have "snd (?A (c, w)) = None" by simp
  from seq_ok [of ?A, OF this] A have run1: "run env error loader (c, w) = seq ?B ?C ?s1"
    unfolding run_eq by simp
  from multi prep(2) have B: "?B ?s1 = ?E" by simp
  have okB: "snd ?E = None"
  proof (rule ccontr)
    assume n: "snd ?E \<noteq> None"
    with B have "snd (?B ?s1) \<noteq> None" by simp
    then have "seq ?B ?C ?s1 = ?B ?s1" by (rule seq_err)
    with ok n B show False unfolding run1 by simp
  qed
  with B have "snd (?B ?s1) = None" by simp
  from seq_ok [of ?B, OF this] B have run2: "run env error loader (c, w) = ?C (fst ?E)"
    unfolding run1 by simp
  from prep(5) [OF r] empty have "optimized (layers_info c) [] = Inr (orounds c1 ! r)" by simp
  from optimized_faults [OF this] have falsy: "\<not> oround_truthy (orounds c1 ! r)"
    by (simp add: oround_truthy_def)
  from evaluate_loop_empty_round [of env error loader ?s1 r] okB evaluate_optimized_loop [OF okB]
    prep r falsy
  have "performance (fst (fst ?E)) ! r =
      fold (\<lambda>batch st. advance_performance env st (golden env (layers_info c) (fst batch) None None)
                          (fst (snd batch)) (snd (snd batch)) error)
           loader (spikeStats (float_zero env))"
    by simp
  then have ev: "performance (fst (fst ?E)) ! r = golden_baseline env (layers_info c) error loader"
    by (simp add: golden_baseline_def)
  from evaluate_optimized_same_setup [of c1 env error loader "golden_copy env"] prep(4) r
  have "r < length (performance (fst (fst ?E)))" by (simp add: same_setup_def)
  with ev have rn: "performance (fst (fst (run env error loader (c, w)))) ! r
      = stats_update env (golden_baseline env (layers_info c) error loader)"
    unfolding run2 by simp
  have step: "last (golden_spikes env (layers_info c) input) = golden env (layers_info c) input None None
      \<and> round_step env error (input, tgt, label) (golden_spikes env (layers_info c) input) r (c', w')
           = ((c'\<lparr>r_idx := r, performance := (performance c')[r :=
                  advance_performance env (performance c' ! r)
                    (last (golden_spikes env (layers_info c) input)) tgt label error]\<rparr>, w'), None)"
    if "orounds c' = orounds c1" "length (performance c') = length (performance c1)"
    for c' :: "'f campaign" and w' :: 'w and input tgt label
  proof -
    have ne: "golden_spikes env (layers_info c) input \<noteq> []"
      using golden_spikes_length [of env "layers_info c" input] by auto
    from that prep(3,4) r falsy
    have "r < length (orounds c')" "r < length (performance c')" "\<not> oround_truthy (orounds c' ! r)"
      by simp_all
    from round_step_empty [OF this ne] show ?thesis by (simp add: golden_spikes_last)
  qed
  from ev rn step show ?thesis by blast
qed

lemma ex_baseline_hyps:
  "1 < length (rounds ex_campaign_baseline)" "0 < length (rounds ex_campaign_baseline)"
  "rounds ex_campaign_baseline ! 0 = []"
  "snd (run ex_env ex_error ex_loader (ex_campaign_baseline, 5)) = None"
  by code_simp+

theorem empty_round_is_golden_baseline_witness:
  "1 < length (rounds ex_campaign_baseline) \<and> 0 < length (rounds ex_campaign_baseline)
   \<and> rounds ex_campaign_baseline ! 0 = []
   \<and> snd (run ex_env ex_error ex_loader (ex_campaign_baseline, 5)) = None
   \<and> golden_baseline ex_env (layers_info ex_campaign_baseline) ex_error ex_loader
        = \<lparr>correctSamples = 2, numSamples = 2, lossSum = 24\<rparr>
   \<and> performance (fst (fst (evaluate_optimized ex_env ex_error ex_loader (ex_prepared, golden_copy ex_env)))) ! 0
        = \<lparr>correctSamples = 2, numSamples = 2, lossSum = 24\<rparr>
   \<and> performance (fst (fst (run ex_env ex_error ex_loader (ex_campaign_baseline, 5)))) ! 0
        = \<lparr>correctSamples = 2, numSamples = 2, lossSum = 24\<rparr>
   \<and> performance (fst (fst (run ex_env ex_error ex_loader (ex_campaign_baseline, 5)))) ! 1
        = \<lparr>correctSamples = 1, numSamples = 2, lossSum = 8\<rparr>
   \<and> snd (fst (round_step ex_env ex_error (3, 0, 20)
               (golden_spikes ex_env (layers_info ex_campaign_baseline) 3) 0 (ex_prepared, 7))) = 7"
proof -
  have g: "golden_baseline ex_env (layers_info ex_campaign_baseline) ex_error ex_loader
        = \<lparr>correctSamples = 2, numSamples = 2, lossSum = 24\<rparr>" by code_simp
  have u: "stats_update ex_env \<lparr>correctSamples = 2, numSamples = 2, lossSum = 24\<rparr>
        = \<lparr>correctSamples = 2, numSamples = 2, lossSum = 24::int\<rparr>" by (simp add: ex_env_def)
  have o: "performance (fst (fst (run ex_env ex_error ex_loader (ex_campaign_baseline, 5)))) ! 1
        = \<lparr>correctSamples = 1, numSamples = 2, lossSum = 8\<rparr>" by code_simp
  note th = empty_round_is_golden_baseline [OF ex_baseline_hyps, folded ex_prepared_def]
  from th g have a: "performance (fst (fst (evaluate_optimized ex_env ex_error ex_loader
        (ex_prepared, golden_copy ex_env)))) ! 0 = \<lparr>correctSamples = 2, numSamples = 2, lossSum = 24\<rparr>"
    by simp
  from th g u have b: "performance (fst (fst (run ex_env ex_error ex_loader (ex_campaign_baseline, 5)))) ! 0
        = \<lparr>correctSamples = 2, numSamples = 2, lossSum = 24\<rparr>"
    by simp
  from th have "snd (fst (round_step ex_env ex_error (3, 0, 20)
               (golden_spikes ex_env (layers_info ex_campaign_baseline) 3) 0 (ex_prepared, 7))) = 7"
    by simp
  with ex_baseline_hyps g a b o show ?thesis by (intro conjI)
qed


subsection \<open>The synaptic hooks\<close>

lemma seq_all_map: "seq_all f (map h xs) = seq_all (\<lambda>x. f (h x)) xs"
proof
  show "seq_all f (map h xs) s = seq_all (\<lambda>x. f (h x)) xs s" for s
    by (induction xs arbitrary: s) (simp_all add: seq_cases)
qed

lemma seq_all_concat: "seq_all f (concat xss) s = seq_all (\<lambda>xs. seq_all f xs) xss s"
proof (induction xss arbitrary: s)
  case Nil
  then show ?case by simp
next
  case (Cons xs xss)
  have "seq_all f (concat (xs # xss)) s = seq (seq_all f xs) (seq_all f (concat xss)) s"
    by (simp add: seq_all_append)
  also have "\<dots> = seq (seq_all f xs) (seq_all (\<lambda>xs. seq_all f xs) xss) s"
    using Cons.IH by (simp add: seq_cases)
  finally show ?case by simp
qed

lemma seq_all_pairs:
  "seq_all (\<lambda>f. seq_all (g (model f)) (sites f)) fs s
     = seq_all (\<lambda>p. g (fst p) (snd p)) (concat (map (\<lambda>f. map (Pair (model f)) (sites f)) fs)) s"
  by (simp add: seq_all_concat seq_all_map)

lemma synaptic_pre_site_one:
  assumes "offsets (t_shape (layer_weight st)) (unroll s) = Inr [k]"
  shows "synaptic_pre_site perturb m s st =
           (st\<lparr>layer_weight := (layer_weight st)\<lparr>t_data := (t_data (layer_weight st))[k :=
                   perturb m (t_data (layer_weight st) ! k) s]\<rparr>,
               saved := (saved st)((m, s) \<mapsto> t_data (layer_weight st) ! k)\<rparr>, None)"
  using assms by (simp add: synaptic_pre_site_def perturb_store_def)

lemma synaptic_post_site_one:
  assumes "offsets (t_shape (layer_weight st)) (unroll s) = Inr [k]" "saved st (m, s) = Some v"
  shows "synaptic_post_site m s st =
           (st\<lparr>layer_weight := (layer_weight st)\<lparr>t_data := (t_data (layer_weight st))[k := v]\<rparr>\<rparr>, None)"
  using assms by (simp add: synaptic_post_site_def restore_def)

lemma pre_sites_distinct:
  fixes st :: "'v synapses" and k :: "fault_model \<times> fault_site \<Rightarrow> nat"
  assumes "\<forall>p \<in> set ps. offsets (t_shape (layer_weight st)) (unroll (snd p)) = Inr [k p]"
    and "distinct (map k ps)"
  shows "\<exists>st'. seq_all (\<lambda>p. synaptic_pre_site perturb (fst p) (snd p)) ps st = (st', None)
           \<and> t_shape (layer_weight st') = t_shape (layer_weight st)
           \<and> length (t_data (layer_weight st')) = length (t_data (layer_weight st))
           \<and> (\<forall>p \<in> set ps. saved st' p = Some (t_data (layer_weight st) ! k p))
           \<and> (\<forall>q. q \<notin> set ps \<longrightarrow> saved st' q = saved st q)
           \<and> (\<forall>j. j \<notin> k ` set ps \<longrightarrow> t_data (layer_weight st') ! j = t_data (layer_weight st) ! j)"
  using assms
proof (induction ps arbitrary: st)
  case Nil
  then show ?case by simp
next
  case (Cons p ps)
  obtain m s where p: "p = (m, s)" by (cases p)
  let ?d = "t_data (layer_weight st)"
  let ?st1 = "st\<lparr>layer_weight := (layer_weight st)\<lparr>t_data := ?d[k p := perturb m (?d ! k p) s]\<rparr>,
               saved := (saved st)((m, s) \<mapsto> ?d ! k p)\<rparr>"
  let ?f = "\<lambda>p. synaptic_pre_site perturb (fst p) (snd p)"
  from Cons.prems(1) p have off: "offsets (t_shape (layer_weight st)) (unroll s) = Inr [k p]" by simp
  from synaptic_pre_site_one [OF off] have step: "synaptic_pre_site perturb m s st = (?st1, None)" .
  from Cons.prems(2) have kp: "k p \<notin> k ` set ps" and dist: "distinct (map k ps)" by simp_all
  from kp have pn: "p \<notin> set ps" by auto
  have "\<forall>q \<in> set ps. offsets (t_shape (layer_weight ?st1)) (unroll (snd q)) = Inr [k q]"
    using Cons.prems(1) by simp
  from Cons.IH [OF this dist] obtain st' where
    run: "seq_all ?f ps ?st1 = (st', None)"
    and shp: "t_shape (layer_weight st') = t_shape (layer_weight ?st1)"
    and len: "length (t_data (layer_weight st')) = length (t_data (layer_weight ?st1))"
    and sv: "\<forall>q \<in> set ps. saved st' q = Some (t_data (layer_weight ?st1) ! k q)"
    and keep: "\<forall>q. q \<notin> set ps \<longrightarrow> saved st' q = saved ?st1 q"
    and oth: "\<forall>j. j \<notin> k ` set ps \<longrightarrow> t_data (layer_weight st') ! j = t_data (layer_weight ?st1) ! j"
    by blast
  have 1: "seq_all ?f (p # ps) st = (st', None)"
    using step run p by (simp add: seq_cases)
  have 2: "t_shape (layer_weight st') = t_shape (layer_weight st)" using shp by simp
  have 3: "length (t_data (layer_weight st')) = length ?d" using len by simp
  have 4: "saved st' q = Some (?d ! k q)" if "q \<in> set (p # ps)" for q
  proof (cases "q = p")
    case True
    with keep pn p show ?thesis by simp
  next
    case False
    with that have q: "q \<in> set ps" by simp
    with kp have "k q \<noteq> k p" by (metis image_eqI)
    with sv q show ?thesis by simp
  qed
  have 5: "saved st' q = saved st q" if "q \<notin> set (p # ps)" for q
  proof -
    from that have "q \<notin> set ps" "q \<noteq> (m, s)" using p by simp_all
    with keep have "saved st' q = saved ?st1 q" by blast
    with \<open>q \<noteq> (m, s)\<close> show ?thesis by simp
  qed
  have 6: "t_data (layer_weight st') ! j = ?d ! j" if "j \<notin> k ` set (p # ps)" for j
    using that oth by simp
  from 1 2 3 4 5 6 show ?case by blast
qed

lemma fold_update_nth:
  "length (fold (\<lambda>k d. d[k := v]) ks d) = length d"
  by (induction ks arbitrary: d) simp_all

lemma post_sites:
  fixes st :: "'v synapses" and k :: "fault_model \<times> fault_site \<Rightarrow> nat"
  assumes "\<forall>p \<in> set ps. offsets (t_shape (layer_weight st)) (unroll (snd p)) = Inr [k p]"
    and "\<forall>p \<in> set ps. saved st p = Some (orig ! k p)"
  shows "\<exists>st'. seq_all (\<lambda>p. synaptic_post_site (fst p) (snd p)) ps st = (st', None)
           \<and> t_shape (layer_weight st') = t_shape (layer_weight st)
           \<and> length (t_data (layer_weight st')) = length (t_data (layer_weight st))
           \<and> (\<forall>j < length (t_data (layer_weight st)).
                 t_data (layer_weight st') ! j
                   = (if j \<in> k ` set ps then orig ! j else t_data (layer_weight st) ! j))"
  using assms
proof (induction ps arbitrary: st)
  case Nil
  then show ?case by simp
next
  case (Cons p ps)
  obtain m s where p: "p = (m, s)" by (cases p)
  let ?d = "t_data (layer_weight st)"
  let ?st1 = "st\<lparr>layer_weight := (layer_weight st)\<lparr>t_data := ?d[k p := orig ! k p]\<rparr>\<rparr>"
  let ?f = "\<lambda>p. synaptic_post_site (fst p) (snd p)"
  from Cons.prems p have off: "offsets (t_shape (layer_weight st)) (unroll s) = Inr [k p]"
    and sv: "saved st (m, s) = Some (orig ! k p)" by simp_all
  from synaptic_post_site_one [OF off sv] have step: "synaptic_post_site m s st = (?st1, None)" .
  have a: "\<forall>q \<in> set ps. offsets (t_shape (layer_weight ?st1)) (unroll (snd q)) = Inr [k q]"
    using Cons.prems(1) by simp
  have b: "\<forall>q \<in> set ps. saved ?st1 q = Some (orig ! k q)" using Cons.prems(2) by simp
  from Cons.IH [OF a b] obtain st' where
    run: "seq_all ?f ps ?st1 = (st', None)"
    and shp: "t_shape (layer_weight st') = t_shape (layer_weight ?st1)"
    and len: "length (t_data (layer_weight st')) = length (t_data (layer_weight ?st1))"
    and val: "\<forall>j < length (t_data (layer_weight ?st1)).
                 t_data (layer_weight st') ! j
                   = (if j \<in> k ` set ps then orig ! j else t_data (layer_weight ?st1) ! j)"
    by blast
  have 1: "seq_all ?f (p # ps) st = (st', None)" using step run p by (simp add: seq_cases)
  have 2: "t_shape (layer_weight st') = t_shape (layer_weight st)" using shp by simp
  have 3: "length (t_data (layer_weight st')) = length ?d" using len by simp
  have 4: "t_data (layer_weight st') ! j = (if j \<in> k ` set (p # ps) then orig ! j else ?d ! j)"
    if "j < length ?d" for j
  proof (cases "j \<in> k ` set ps")
    case True
    with val that show ?thesis by simp
  next
    case False
    with val that have "t_data (layer_weight st') ! j = ?d[k p := orig ! k p] ! j" by simp
    with that False show ?thesis by (cases "j = k p") simp_all
  qed
  from 1 2 3 4 show ?case by blast
qed

text \<open>
  When the sites of the synaptic Faults of the layer address pairwise different weights, one
  pass of the layer raises no error and leaves the weight tensor as it found it.
\<close>

lemma synaptic_round_trip:
  fixes st :: "'v synapses" and k :: "fault_model \<times> fault_site \<Rightarrow> nat" and layer_name :: string
  assumes idx: "r_idx c < length (orounds c)"
  defines "ps \<equiv> concat (map (\<lambda>f. map (Pair (model f)) (sites f))
                             (search_synaptic (oround_faults (orounds c ! r_idx c)) layer_name))"
  assumes off: "\<forall>p \<in> set ps. offsets (t_shape (layer_weight st)) (unroll (snd p)) = Inr [k p]"
    and dist: "distinct (map k ps)"
  shows "snd (layer_pass perturb forward c layer_name (st, x)) = None"
    and "layer_weight (fst (fst (layer_pass perturb forward c layer_name (st, x)))) = layer_weight st"
proof -
  let ?d = "t_data (layer_weight st)"
  from pre_sites_distinct [OF off dist, of perturb] obtain st1 where
    run1: "seq_all (\<lambda>p. synaptic_pre_site perturb (fst p) (snd p)) ps st = (st1, None)"
    and shp1: "t_shape (layer_weight st1) = t_shape (layer_weight st)"
    and len1: "length (t_data (layer_weight st1)) = length ?d"
    and sv1: "\<forall>p \<in> set ps. saved st1 p = Some (?d ! k p)"
    and oth1: "\<forall>j. j \<notin> k ` set ps \<longrightarrow> t_data (layer_weight st1) ! j = ?d ! j"
    by blast
  from off shp1 have off1: "\<forall>p \<in> set ps. offsets (t_shape (layer_weight st1)) (unroll (snd p)) = Inr [k p]"
    by simp
  from post_sites [OF off1 sv1] obtain st2 where
    run2: "seq_all (\<lambda>p. synaptic_post_site (fst p) (snd p)) ps st1 = (st2, None)"
    and shp2: "t_shape (layer_weight st2) = t_shape (layer_weight st1)"
    and len2: "length (t_data (layer_weight st2)) = length (t_data (layer_weight st1))"
    and val2: "\<forall>j < length (t_data (layer_weight st1)).
                 t_data (layer_weight st2) ! j
                   = (if j \<in> k ` set ps then ?d ! j else t_data (layer_weight st1) ! j)"
    by blast
  have pre: "synaptic_pre_hook perturb c layer_name st = (st1, None)"
    using idx run1 by (simp add: synaptic_pre_hook_def seq_all_pairs ps_def)
  have post: "synaptic_hook c layer_name st1 = (st2, None)"
    using idx run2 by (simp add: synaptic_hook_def seq_all_pairs ps_def)
  from pre post have pass: "layer_pass perturb forward c layer_name (st, x)
      = ((st2, forward (layer_weight st1) x), None)"
    by (simp add: layer_pass_def)
  have "t_data (layer_weight st2) = ?d"
  proof (rule nth_equalityI)
    show "length (t_data (layer_weight st2)) = length ?d" using len1 len2 by simp
    show "t_data (layer_weight st2) ! j = ?d ! j" if "j < length (t_data (layer_weight st2))" for j
      using that val2 oth1 len1 len2 by (cases "j \<in> k ` set ps") simp_all
  qed
  with shp1 shp2 have "layer_weight st2 = layer_weight st" by simp
  with pass show "snd (layer_pass perturb forward c layer_name (st, x)) = None"
    and "layer_weight (fst (fst (layer_pass perturb forward c layer_name (st, x)))) = layer_weight st"
    by simp_all
qed

text \<open>
  C2. The claim describes what the two synaptic hooks are meant to do, and the code does not
  do it when two sites of the active Round address the same weight. The post-hook restores
  in the order the pre-hook perturbed: the second site has retained the value the first one
  wrote, and restores it last. With a saturated and a dead synapse injected at the same
  site of layer SC1, both hooks are registered, the pass raises no error, and the weight,
  6 before the pass, is 100 after it. The same happens with one Fault whose two sites
  address that weight, one of them from the end of its axis. With the one site alone the
  layer computes with the perturbed weight and the weights are restored, as they are
  whenever the sites address pairwise different weights (lemma \<open>synaptic_round_trip\<close>).
\<close>

theorem synaptic_restore_overlapping_sites:
  "search_synaptic (oround_faults (orounds ex_prepared_two_models ! r_idx ex_prepared_two_models)) ''SC1''
     = [ex_sat_fault, ex_dead_fault]
   \<and> faulty_hooks ex_prepared_two_models = [(''SC1'', SynapticPre ''SC1''), (''SC1'', SynapticPost ''SC1'')]
   \<and> t_data (layer_weight ex_synapses) ! 5 = 6
   \<and> snd (layer_pass ex_perturb ex_forward ex_prepared_two_models ''SC1'' (ex_synapses, 7)) = None
   \<and> t_data (layer_weight (fst (fst (layer_pass ex_perturb ex_forward ex_prepared_two_models ''SC1''
              (ex_synapses, 7))))) ! 5 = 100
   \<and> search_synaptic (oround_faults (orounds ex_prepared_alias ! r_idx ex_prepared_alias)) ''SC1''
     = [ex_alias_fault]
   \<and> map (\<lambda>s. offsets (t_shape (layer_weight ex_synapses)) (unroll s)) (sites ex_alias_fault)
     = [Inr [5], Inr [5]]
   \<and> snd (layer_pass ex_perturb ex_forward ex_prepared_alias ''SC1'' (ex_synapses, 7)) = None
   \<and> t_data (layer_weight (fst (fst (layer_pass ex_perturb ex_forward ex_prepared_alias ''SC1''
              (ex_synapses, 7))))) ! 5 = 100
   \<and> snd (layer_pass ex_perturb ex_forward ex_prepared_one_site ''SC1'' (ex_synapses, 7)) = None
   \<and> snd (fst (layer_pass ex_perturb ex_forward ex_prepared_one_site ''SC1'' (ex_synapses, 7))) = 107
   \<and> layer_weight (fst (fst (layer_pass ex_perturb ex_forward ex_prepared_one_site ''SC1''
              (ex_synapses, 7)))) = layer_weight ex_synapses"
  by code_simp

end
